theory Spec2Isabelle
  imports Main "HOL-Library.List_Lexorder" "HOL-Library.Char_ord"
begin

section \<open>Data model of packages/parser-js/src/index.js\<close>

text \<open>
  The module associates documentation comments with syntax nodes. Its collaborators
  (the syntax parser, the two tree walkers, the doc-comment parser, the target finder)
  live in other modules; they are the fields of the record \<open>env\<close> below, and every
  function of this theory takes them as a parameter.

  JavaScript objects that the module mutates after they were created (comment records)
  live in an explicit store: a list of records, addressed by their index.
\<close>

type_synonym cref = nat

text \<open>A source position and a source range (\<open>loc.start\<close>, \<open>loc.end\<close>; \<open>end\<close> is
  written \<open>finish\<close>).\<close>

record position =
  line :: nat
  column :: nat

record loc =
  start :: position
  finish :: position

text \<open>A syntax node: \<open>nid\<close> is the identity of the object (the association map is
  keyed by identity), \<open>ntype\<close> its \<open>type\<close>, \<open>node_start\<close> and \<open>node_end\<close> its
  \<open>start\<close> and \<open>end\<close> offsets.\<close>

record ast_node =
  nid :: nat
  ntype :: string
  kind :: string
  node_start :: nat
  node_end :: nat

text \<open>A node path: its node (which may be absent) and the path of the parent.\<close>

datatype path = Path (node: "ast_node option") (parentPath: "path option")

text \<open>The module-deps item \<open>data\<close> (\<open>fileName\<close> is its \<open>file\<close>).\<close>

record data =
  fileName :: string
  source :: string
  sortKey :: string

text \<open>A property with its descriptor, as \<open>Object.defineProperty\<close> creates it.\<close>

record 'v property =
  prop_value :: 'v
  enumerable :: bool
  configurable :: bool
  writable :: bool

text \<open>The context object handed to the doc-comment parser: \<open>loc\<close>, \<open>file\<close> and
  \<open>sortKey\<close> always, \<open>ast\<close> and \<open>code\<close> optionally.\<close>

record ctx =
  ctx_loc :: loc
  ctx_file :: string
  ctx_sortKey :: string
  ast :: "path property option"
  code :: "string option"

text \<open>A comment record, as much of it as this module reads or writes: the context and
  text it was parsed from, the \<open>lends\<close> tag (a name, when present), the
  \<open>hideconstructor\<close> tag, and the \<open>constructorComment\<close> the merge rule sets (a
  reference into the store).\<close>

record comment =
  comment_context :: ctx
  comment_loc :: loc
  description :: string
  lends :: "string option"
  hideconstructor :: bool
  constructorComment :: "cref option"

datatype error = TypeError

text \<open>What a run can be observed to do besides returning: calls of the doc-comment
  parser with their arguments, and lines written to the debug log.\<close>

datatype event = ParseCall string loc ctx | DebugLog string

text \<open>The store of comment records and the event trace belong to the process; the
  visited set and the association map belong to one run.\<close>

record process =
  heap :: "comment list"
  trace :: "event list"

record state = process +
  visited :: "string set"
  commentsByNode :: "nat option \<rightharpoonup> cref"

text \<open>A walker's discovery of one comment: the raw text, the comment's range, the path
  it is attached to, and the documented node's range.\<close>

type_synonym found = "string \<times> loc \<times> path \<times> loc"

text \<open>The collaborators. \<open>commentsOf ty ast d\<close> is what the comment walker finds in
  category \<open>ty\<close>; \<open>exportedOf ast d\<close> what the exported-symbols walker finds, each
  with the context flag that walker passes; \<open>readFileSync\<close> is the file system.\<close>

record 'ast env =
  parse :: "string \<Rightarrow> loc \<Rightarrow> ctx \<Rightarrow> comment"
  findTarget :: "path \<Rightarrow> path option"
  parseToAst :: "string \<Rightarrow> 'ast"
  commentsOf :: "string \<Rightarrow> 'ast \<Rightarrow> data \<Rightarrow> found list"
  exportedOf :: "'ast \<Rightarrow> data \<Rightarrow> (found \<times> bool) list"
  readFileSync :: "string \<Rightarrow> string"

record config =
  documentExported :: bool

section \<open>leftPad\<close>

text \<open>\<open>Number.prototype.toString\<close> on a non-negative integer: its decimal digits.\<close>

definition digitChar :: "nat \<Rightarrow> char" where
  "digitChar d = char_of (48 + d)"

fun toString :: "nat \<Rightarrow> string" where
  "toString n = (if n < 10 then [digitChar n] else toString (n div 10) @ [digitChar (n mod 10)])"

declare toString.simps [simp del]

text \<open>The loop of \<open>leftPad\<close>: \<open>while (str.length < width) str = '0' + str\<close>.\<close>

function padLoop :: "string \<Rightarrow> nat \<Rightarrow> string" where
  "padLoop str width = (if length str < width then padLoop (CHR ''0'' # str) width else str)"
  by pat_completeness auto
termination
  by (relation "measure (\<lambda>(str, width). width - length str)") auto

declare padLoop.simps [simp del]

definition leftPad :: "nat \<Rightarrow> nat \<Rightarrow> string" where
  "leftPad str width = padLoop (toString str) width"

section \<open>_addComment\<close>

text \<open>\<open>String.prototype.substring\<close> on integer arguments: both are clamped to the
  length of the string and swapped when the first is the larger.\<close>

definition substring :: "string \<Rightarrow> nat \<Rightarrow> nat \<Rightarrow> string" where
  "substring s a b =
     (let a' = min a (length s); b' = min b (length s)
      in take (max a' b' - min a' b') (drop (min a' b') s))"

text \<open>Modelled from the spec: \<open>t.isClassMethod\<close> of babel-types is not in the source.
  Section 4.3 applies the constructor rule when "the current node path is a class method
  node"; a path carries the type of its node, and a path without a node is of no type.\<close>

definition isClassMethod :: "path \<Rightarrow> bool" where
  "isClassMethod p = (case node p of None \<Rightarrow> False | Some n \<Rightarrow> ntype n = ''ClassMethod'')"

text \<open>The key under which a path's node is stored in the association map: the identity
  of the node, or \<open>None\<close> for an absent node.\<close>

definition nodeKey :: "path \<Rightarrow> nat option" where
  "nodeKey p = map_option nid (node p)"

text \<open>Lines 72-73: the key of the visited set.\<close>

definition visitedKey :: "data \<Rightarrow> loc \<Rightarrow> string" where
  "visitedKey d commentLoc =
     fileName d @ '':'' @ toString (line (start commentLoc)) @ '':'' @ toString (column (start commentLoc))"

text \<open>Lines 83-102: the context object.\<close>

definition buildContext :: "data \<Rightarrow> path \<Rightarrow> loc \<Rightarrow> bool \<Rightarrow> ctx" where
  "buildContext d p nodeLoc includeContext =
     (let context = \<lparr>ctx_loc = nodeLoc, ctx_file = fileName d,
                     ctx_sortKey = sortKey d @ '' '' @ leftPad (line (start nodeLoc)) 8,
                     ast = None, code = None\<rparr>
      in if includeContext then
           (let context = context\<lparr>ast := Some \<lparr>prop_value = p, enumerable = False,
                                                configurable = True, writable = False\<rparr>\<rparr>
            in case parentPath p of
                 None \<Rightarrow> context
               | Some pp \<Rightarrow>
                   (case node pp of
                      None \<Rightarrow> context
                    | Some parentNode \<Rightarrow>
                        context\<lparr>code := Some (substring (source d) (node_start parentNode)
                                                  (node_end parentNode))\<rparr>))
         else context)"


text \<open>Lines 107-125: the constructor rule, for a comment stored at \<open>r\<close>.\<close>

definition constructorRule :: "state \<Rightarrow> path \<Rightarrow> cref \<Rightarrow> (error + cref option) \<times> state" where
  "constructorRule st p r =
     (let st1 = (if \<not> hideconstructor (heap st ! r)
                 then st\<lparr>trace := trace st @ [DebugLog
                   ''A constructor was documented explicitly: document along with the class instead'']\<rparr>
                 else st)
      in case parentPath p of
           None \<Rightarrow> (Inl TypeError, st1)
         | Some pp \<Rightarrow>
             (case parentPath pp of
                None \<Rightarrow> (Inl TypeError, st1)
              | Some gp \<Rightarrow>
                  (case commentsByNode st1 (nodeKey gp) of
                     Some parentComment \<Rightarrow>
                       (Inr None,
                        st1\<lparr>heap := (heap st1)[parentComment :=
                               (heap st1 ! parentComment)\<lparr>constructorComment := Some r\<rparr>]\<rparr>)
                   | None \<Rightarrow>
                       if hideconstructor (heap st1 ! r) then (Inr None, st1)
                       else (Inr (Some r), st1))))"

text \<open>\<open>_addComment\<close> (an Isabelle name cannot start with an underscore). The mutable
  \<open>visited\<close> and \<open>commentsByNode\<close> arguments are the fields of the state.\<close>

definition addComment ::
  "'ast env \<Rightarrow> data \<Rightarrow> string \<Rightarrow> loc \<Rightarrow> path \<Rightarrow> loc \<Rightarrow> bool \<Rightarrow> state
     \<Rightarrow> (error + cref option) \<times> state" where
  "addComment env d commentValue commentLoc p nodeLoc includeContext st =
     (let key = visitedKey d commentLoc
      in if key \<notin> visited st then
           (let st1 = st\<lparr>visited := insert key (visited st)\<rparr>;
                context = buildContext d p nodeLoc includeContext;
                r = length (heap st1);
                st2 = st1\<lparr>heap := heap st1 @ [parse env commentValue commentLoc context],
                          trace := trace st1 @ [ParseCall commentValue commentLoc context]\<rparr>
            in if includeContext then
                 (let target = (case findTarget env p of Some q \<Rightarrow> q | None \<Rightarrow> p);
                      st3 = st2\<lparr>commentsByNode := (commentsByNode st2)(nodeKey target \<mapsto> r)\<rparr>
                  in if isClassMethod p \<and> map_option kind (node p) = Some ''constructor''
                     then constructorRule st3 p r
                     else (Inr (Some r), st3))
               else (Inr (Some r), st2))
         else (Inr None, st))"

section \<open>parseJavaScript\<close>

type_synonym callback =
  "data \<Rightarrow> string \<Rightarrow> loc \<Rightarrow> path \<Rightarrow> loc \<Rightarrow> bool \<Rightarrow> state \<Rightarrow> (error + cref option) \<times> state"

text \<open>Modelled from the spec: the walkers \<open>walkComments\<close> and \<open>walkExported\<close> are
  not in the source. By sections 1 and 4.4 a walker traverses the tree and, for each
  comment it discovers, invokes the callback with the raw text, the comment's range, the
  node path, the documented node's range and the context flag; its result is the sequence
  of what the callback returned, in the order of the calls. An exception of the callback
  ends the traversal.\<close>

fun callAll :: "callback \<Rightarrow> data \<Rightarrow> (found \<times> bool) list \<Rightarrow> state
    \<Rightarrow> (error + cref option list) \<times> state" where
  "callAll cb d [] st = (Inr [], st)"
| "callAll cb d (((commentValue, commentLoc, p, nodeLoc), includeContext) # fs) st =
     (case cb d commentValue commentLoc p nodeLoc includeContext st of
        (Inl e, st1) \<Rightarrow> (Inl e, st1)
      | (Inr r, st1) \<Rightarrow>
          (case callAll cb d fs st1 of
             (Inl e, st2) \<Rightarrow> (Inl e, st2)
           | (Inr rs, st2) \<Rightarrow> (Inr (r # rs), st2)))"

definition walkComments :: "'ast env \<Rightarrow> string \<Rightarrow> bool \<Rightarrow> 'ast \<Rightarrow> data \<Rightarrow> callback \<Rightarrow> state
    \<Rightarrow> (error + cref option list) \<times> state" where
  "walkComments env ty includeContext tree d cb =
     callAll cb d (map (\<lambda>f. (f, includeContext)) (commentsOf env ty tree d))"

definition walkExported :: "'ast env \<Rightarrow> 'ast \<Rightarrow> data \<Rightarrow> callback \<Rightarrow> state
    \<Rightarrow> (error + cref option list) \<times> state" where
  "walkExported env tree d cb = callAll cb d (exportedOf env tree d)"

text \<open>\<open>_.flatMap\<close> over functions that change the state: the results are concatenated
  in the order of the collection, and an exception ends the iteration.\<close>

fun flatMap :: "'x list \<Rightarrow> ('x \<Rightarrow> state \<Rightarrow> (error + 'y list) \<times> state) \<Rightarrow> state
    \<Rightarrow> (error + 'y list) \<times> state" where
  "flatMap [] f st = (Inr [], st)"
| "flatMap (x # xs) f st =
     (case f x st of
        (Inl e, st1) \<Rightarrow> (Inl e, st1)
      | (Inr ys, st1) \<Rightarrow>
          (case flatMap xs f st1 of
             (Inl e, st2) \<Rightarrow> (Inl e, st2)
           | (Inr zs, st2) \<Rightarrow> (Inr (ys @ zs), st2)))"

text \<open>Truthiness of an optional string: absent and the empty string are falsy.\<close>

definition truthy :: "string option \<Rightarrow> bool" where
  "truthy v = (case v of None \<Rightarrow> False | Some s \<Rightarrow> s \<noteq> [])"

text \<open>The filter of line 57, \<open>comment && !comment.lends\<close>, on the final store.\<close>

definition kept :: "comment list \<Rightarrow> cref option \<Rightarrow> bool" where
  "kept h c = (case c of None \<Rightarrow> False | Some r \<Rightarrow> \<not> truthy (lends (h ! r)))"

text \<open>\<open>parseJavaScript\<close>, started in a process \<open>w\<close>: it returns the references of the
  comment records it keeps (or the exception that ended it) and the process it leaves.\<close>

definition parseJavaScript :: "'ast env \<Rightarrow> process \<Rightarrow> data \<Rightarrow> config
    \<Rightarrow> (error + cref list) \<times> process" where
  "parseJavaScript env w d cfg =
     (let st0 = \<lparr>heap = heap w, trace = trace w, visited = {}, commentsByNode = Map.empty\<rparr>;
          tree = parseToAst env (source d);
          (res, st) =
            flatMap (if documentExported cfg
                     then [walkExported env]
                     else [walkComments env ''leadingComments'' True,
                           walkComments env ''innerComments'' False,
                           walkComments env ''trailingComments'' False])
                    (\<lambda>fn. fn tree d (addComment env)) st0
      in (case res of
            Inl e \<Rightarrow> Inl e
          | Inr cs \<Rightarrow> Inr (map the (filter (kept (heap st)) cs)),
          \<lparr>heap = heap st, trace = trace st\<rparr>))"

text \<open>The exported function: it reads the file when the descriptor has no source text.\<close>

definition module_exports :: "'ast env \<Rightarrow> process \<Rightarrow> data \<Rightarrow> config
    \<Rightarrow> (error + cref list) \<times> process" where
  "module_exports env w sourceFile cfg =
     parseJavaScript env w
       (if source sourceFile = [] then sourceFile\<lparr>source := readFileSync env (fileName sourceFile)\<rparr>
        else sourceFile) cfg"

section \<open>Auxiliary definitions\<close>

text \<open>The last \<open>w\<close> decimal digits of \<open>n\<close>, most significant first.\<close>

fun fixedWidth :: "nat \<Rightarrow> nat \<Rightarrow> string" where
  "fixedWidth 0 n = []"
| "fixedWidth (Suc w) n = fixedWidth w (n div 10) @ [digitChar (n mod 10)]"

text \<open>What the walkers find, in the order in which \<open>parseJavaScript\<close> runs them, each
  finding with the context flag its walker is bound with.\<close>

definition findings :: "'ast env \<Rightarrow> config \<Rightarrow> 'ast \<Rightarrow> data \<Rightarrow> (found \<times> bool) list" where
  "findings env cfg tree d =
     (if documentExported cfg then exportedOf env tree d
      else map (\<lambda>f. (f, True)) (commentsOf env ''leadingComments'' tree d)
         @ map (\<lambda>f. (f, False)) (commentsOf env ''innerComments'' tree d)
         @ map (\<lambda>f. (f, False)) (commentsOf env ''trailingComments'' tree d))"

text \<open>A record as it reads when the store it lives in is placed after \<open>n\<close> other records.\<close>

definition relocate :: "nat \<Rightarrow> comment \<Rightarrow> comment" where
  "relocate n c = c\<lparr>constructorComment := map_option (\<lambda>r. n + r) (constructorComment c)\<rparr>"

text \<open>A state of a run in a fresh process and the state of the same run in a process that
  already holds the records \<open>H\<close> and the trace \<open>T\<close>.\<close>

definition related :: "comment list \<Rightarrow> event list \<Rightarrow> state \<Rightarrow> state \<Rightarrow> bool" where
  "related H T st st' \<longleftrightarrow>
     visited st' = visited st
     \<and> commentsByNode st' = (\<lambda>k. map_option (\<lambda>r. length H + r) (commentsByNode st k))
     \<and> heap st' = H @ map (relocate (length H)) (heap st)
     \<and> trace st' = T @ trace st"

text \<open>The association map of a run: every reference in it is allocated, and no reference
  is stored under two nodes.\<close>

definition wfMap :: "state \<Rightarrow> bool" where
  "wfMap s \<longleftrightarrow>
     (\<forall>k r. commentsByNode s k = Some r \<longrightarrow> r < length (heap s))
     \<and> (\<forall>k k' r. commentsByNode s k = Some r \<longrightarrow> commentsByNode s k' = Some r \<longrightarrow> k = k')"

subsection \<open>Sample inputs\<close>

text \<open>A one-line file with a class and its constructor, and the paths of its nodes.\<close>

definition locAt :: "nat \<Rightarrow> nat \<Rightarrow> loc" where
  "locAt l c = \<lparr>start = \<lparr>line = l, column = c\<rparr>, finish = \<lparr>line = l, column = c + 1\<rparr>\<rparr>"

definition sampleData :: data where
  "sampleData = \<lparr>fileName = ''a.js'', source = ''class A { constructor() {} }'', sortKey = ''a.js''\<rparr>"

definition programPath :: path where
  "programPath = Path (Some \<lparr>nid = 0, ntype = ''Program'', kind = [],
                              node_start = 0, node_end = 28\<rparr>) None"

definition classPath :: path where
  "classPath = Path (Some \<lparr>nid = 1, ntype = ''ClassDeclaration'', kind = [],
                            node_start = 0, node_end = 28\<rparr>) (Some programPath)"

definition bodyPath :: path where
  "bodyPath = Path (Some \<lparr>nid = 2, ntype = ''ClassBody'', kind = [],
                           node_start = 8, node_end = 28\<rparr>) (Some classPath)"

definition ctorPath :: path where
  "ctorPath = Path (Some \<lparr>nid = 3, ntype = ''ClassMethod'', kind = ''constructor'',
                           node_start = 10, node_end = 26\<rparr>) (Some bodyPath)"

text \<open>A doc-comment parser for the samples: it keeps what it is given and reads the two
  tags off the text.\<close>

definition sampleParse :: "string \<Rightarrow> loc \<Rightarrow> ctx \<Rightarrow> comment" where
  "sampleParse commentValue commentLoc c =
     \<lparr>comment_context = c, comment_loc = commentLoc, description = commentValue,
      lends = (if commentValue = ''@lends A'' then Some ''A'' else None),
      hideconstructor = (commentValue = ''@hideconstructor''),
      constructorComment = None\<rparr>"

text \<open>A sample environment over given walker findings; its target finder answers the
  path itself when the path has a node.\<close>

definition sampleEnv :: "(string \<Rightarrow> found list) \<Rightarrow> (found \<times> bool) list \<Rightarrow> unit env" where
  "sampleEnv cs es =
     \<lparr>parse = sampleParse,
      findTarget = (\<lambda>p. case node p of None \<Rightarrow> None | Some n \<Rightarrow> Some p),
      parseToAst = (\<lambda>s. ()),
      commentsOf = (\<lambda>ty tree d. cs ty),
      exportedOf = (\<lambda>tree d. es),
      readFileSync = (\<lambda>f. [])\<rparr>"

text \<open>The state of a run that has seen nothing, and the state after the class's comment.\<close>

definition emptyState :: state where
  "emptyState = \<lparr>heap = [], trace = [], visited = {}, commentsByNode = Map.empty\<rparr>"

definition classDocumented :: state where
  "classDocumented =
     snd (addComment (sampleEnv (\<lambda>ty. []) []) sampleData ''A class'' (locAt 1 0) classPath (locAt 2 0)
            True emptyState)"

text \<open>A process that has done nothing, and one that holds a record of earlier work.\<close>

definition freshProcess :: process where
  "freshProcess = \<lparr>heap = [], trace = []\<rparr>"

definition usedProcess :: process where
  "usedProcess = \<lparr>heap = heap classDocumented, trace = trace classDocumented\<rparr>"

text \<open>What the comment walker finds in the sample run: a \<open>lends\<close> comment, the class's and
  the constructor's comment as leading comments; the class's comment once more and a
  further comment as trailing comments of the statement before.\<close>

definition sampleComments :: "string \<Rightarrow> found list" where
  "sampleComments ty =
     (if ty = ''leadingComments''
      then [(''@lends A'', locAt 1 0, programPath, locAt 2 0),
            (''A class'', locAt 8 0, classPath, locAt 9 0),
            (''Creates A'', locAt 10 2, ctorPath, locAt 11 2)]
      else if ty = ''trailingComments''
      then [(''A class'', locAt 8 0, programPath, locAt 2 0),
            (''Done'', locAt 3 0, programPath, locAt 2 0)]
      else [])"

definition allComments :: config where
  "allComments = \<lparr>documentExported = False\<rparr>"

text \<open>The states of the sample run between its three passes.\<close>

definition afterLeading :: state where
  "afterLeading =
     snd (walkComments (sampleEnv sampleComments []) ''leadingComments'' True () sampleData
            (addComment (sampleEnv sampleComments []))
            \<lparr>heap = heap freshProcess, trace = trace freshProcess, visited = {},
             commentsByNode = Map.empty\<rparr>)"

definition afterInner :: state where
  "afterInner =
     snd (walkComments (sampleEnv sampleComments []) ''innerComments'' False () sampleData
            (addComment (sampleEnv sampleComments [])) afterLeading)"

definition afterTrailing :: state where
  "afterTrailing =
     snd (walkComments (sampleEnv sampleComments []) ''trailingComments'' False () sampleData
            (addComment (sampleEnv sampleComments [])) afterInner)"

text \<open>A constructor with two doc blocks.\<close>

definition twoBlocks :: "string \<Rightarrow> found list" where
  "twoBlocks ty =
     (if ty = ''leadingComments''
      then [(''A class'', locAt 1 0, classPath, locAt 2 0),
            (''Creates A'', locAt 3 2, ctorPath, locAt 5 2),
            (''Also creates A'', locAt 4 2, ctorPath, locAt 5 2)]
      else [])"

text \<open>The state of the sample run when it reaches the constructor's comment.\<close>

definition beforeConstructor :: state where
  "beforeConstructor =
     snd (callAll (addComment (sampleEnv sampleComments [])) sampleData
            [((''@lends A'', locAt 1 0, programPath, locAt 2 0), True),
             ((''A class'', locAt 8 0, classPath, locAt 9 0), True)]
            \<lparr>heap = heap freshProcess, trace = trace freshProcess, visited = {},
             commentsByNode = Map.empty\<rparr>)"

section \<open>The sort key\<close>

lemma padLoop_replicate: "padLoop s w = replicate (w - length s) CHR ''0'' @ s"
proof (induction s w rule: padLoop.induct)
  case (1 str width)
  show ?case
  proof (cases "length str < width")
    case True
    then have "width - length str = Suc (width - Suc (length str))" by simp
    with True 1 show ?thesis
      by (subst padLoop.simps) (simp add: replicate_app_Cons_same)
  next
    case False
    then show ?thesis by (subst padLoop.simps) simp
  qed
qed

lemma digitChar_zero: "digitChar 0 = CHR ''0''"
  by code_simp

lemma fixedWidth_zero: "fixedWidth w 0 = replicate w CHR ''0''"
  by (induction w) (simp_all add: digitChar_zero replicate_append_same)

lemma length_fixedWidth: "length (fixedWidth w n) = w"
  by (induction w arbitrary: n) simp_all

lemma pad_toString: "0 < w \<Longrightarrow> n < 10 ^ w \<Longrightarrow> padLoop (toString n) w = fixedWidth w n"
proof (induction w arbitrary: n)
  case 0
  then show ?case by simp
next
  case (Suc w)
  show ?case
  proof (cases "n < 10")
    case True
    then show ?thesis
      by (simp add: padLoop_replicate toString.simps [of n] fixedWidth_zero)
  next
    case False
    then have w: "0 < w" using Suc.prems by (cases w) auto
    have d: "n div 10 < 10 ^ w" using Suc.prems by (simp add: less_mult_imp_div_less)
    have "padLoop (toString (n div 10)) w = fixedWidth w (n div 10)"
      using Suc.IH [OF w d] .
    moreover have "length (toString (n div 10)) \<le> w"
      using length_fixedWidth [of w "n div 10"] calculation
      by (metis padLoop_replicate length_append le_add2)
    ultimately show ?thesis using False
      by (simp add: padLoop_replicate toString.simps [of n] Suc_diff_le)
  qed
qed

lemma digitChar_less: "a < b \<Longrightarrow> b < 10 \<Longrightarrow> digitChar a < digitChar b"
  by (simp add: digitChar_def less_char_def)

lemma fixedWidth_mono: "m < n \<Longrightarrow> n < 10 ^ w \<Longrightarrow> fixedWidth w m < fixedWidth w n"
proof (induction w arbitrary: m n)
  case 0
  then show ?case by simp
next
  case (Suc w)
  show ?case
  proof (cases "m div 10 = n div 10")
    case True
    then have "m mod 10 < n mod 10" using Suc.prems(1)
      by (metis div_mult_mod_eq nat_add_left_cancel_less)
    then have "digitChar (m mod 10) < digitChar (n mod 10)"
      by (simp add: digitChar_less)
    then show ?thesis using True
      by (simp add: list_less_def lexord_append_leftI lexord_same_pref_iff)
  next
    case False
    then have "m div 10 < n div 10" using Suc.prems(1)
      by (meson div_le_mono le_neq_implies_less less_imp_le_nat)
    moreover have "n div 10 < 10 ^ w" using Suc.prems(2) by (simp add: less_mult_imp_div_less)
    ultimately have "fixedWidth w (m div 10) < fixedWidth w (n div 10)"
      by (rule Suc.IH)
    then show ?thesis
      by (simp add: list_less_def lexord_sufI length_fixedWidth)
  qed
qed

text \<open>
  C5 (sort-key monotonicity). For one base key and documented-node lines
  \<open>L1 < L2 \<le> 99999999\<close>, the sort key built for \<open>L1\<close> (the base key, a space, the line
  number left-padded with zeros to 8 digits) is lexicographically strictly below the one
  built for \<open>L2\<close>. The lower bound \<open>1 \<le> L1\<close> of the claim is not needed.
\<close>

theorem sortKey_monotone:
  assumes "sortKey d1 = sortKey d2"
    and "line (start nodeLoc1) < line (start nodeLoc2)"
    and "line (start nodeLoc2) \<le> 99999999"
  shows "ctx_sortKey (buildContext d1 p1 nodeLoc1 ic1)
       < ctx_sortKey (buildContext d2 p2 nodeLoc2 ic2)"
proof -
  have b: "line (start nodeLoc2) < 10 ^ 8" using assms(3) by simp
  then have a: "line (start nodeLoc1) < 10 ^ 8" using assms(2) by simp
  have "leftPad (line (start nodeLoc1)) 8 < leftPad (line (start nodeLoc2)) 8"
    unfolding leftPad_def using fixedWidth_mono [OF assms(2) b] pad_toString a b
    by simp
  then have "sortKey d2 @ '' '' @ leftPad (line (start nodeLoc1)) 8
           < sortKey d2 @ '' '' @ leftPad (line (start nodeLoc2)) 8"
    by (simp add: list_less_def lexord_same_pref_iff)
  then show ?thesis using assms(1)
    by (simp add: buildContext_def Let_def split: option.splits)
qed

theorem sortKey_monotone_witness:
  "ctx_sortKey (buildContext sampleData classPath (locAt 9 0) True) = ''a.js 00000009''
   \<and> ctx_sortKey (buildContext sampleData ctorPath (locAt 10 2) True) = ''a.js 00000010''
   \<and> ctx_sortKey (buildContext sampleData classPath (locAt 9 0) True)
     < ctx_sortKey (buildContext sampleData ctorPath (locAt 10 2) True)"
proof -
  have "ctx_sortKey (buildContext sampleData classPath (locAt 9 0) True) = ''a.js 00000009''"
    by code_simp
  moreover have
    "ctx_sortKey (buildContext sampleData ctorPath (locAt 10 2) True) = ''a.js 00000010''"
    by code_simp
  moreover have "ctx_sortKey (buildContext sampleData classPath (locAt 9 0) True)
     < ctx_sortKey (buildContext sampleData ctorPath (locAt 10 2) True)"
    using sortKey_monotone [of sampleData sampleData "locAt 9 0" "locAt 10 2" classPath True ctorPath True]
    by (simp add: locAt_def)
  ultimately show ?thesis by simp
qed

section \<open>The deduplicator\<close>

subsection \<open>What a call does to the state\<close>

lemma constructorRule_visited: "visited (snd (constructorRule st p r)) = visited st"
  by (simp add: constructorRule_def Let_def split: option.splits)

lemma constructorRule_length: "length (heap (snd (constructorRule st p r))) = length (heap st)"
  by (simp add: constructorRule_def Let_def split: option.splits)

lemma constructorRule_Some: "constructorRule st p r = (Inr (Some r'), st') \<Longrightarrow> r' = r"
  by (auto simp: constructorRule_def Let_def split: option.splits if_splits)

lemma addComment_visited:
  "visited (snd (addComment env d v cl p nl ic st)) = insert (visitedKey d cl) (visited st)"
  by (auto simp: addComment_def Let_def constructorRule_visited)

lemma addComment_length:
  "length (heap (snd (addComment env d v cl p nl ic st))) =
     (if visitedKey d cl \<in> visited st then length (heap st) else Suc (length (heap st)))"
  by (simp add: addComment_def Let_def constructorRule_length)

lemma addComment_Some:
  "addComment env d v cl p nl ic st = (Inr (Some r), st') \<Longrightarrow> r = length (heap st)"
  by (auto simp: addComment_def Let_def split: if_splits dest: constructorRule_Some)

lemma callAll_visited: "visited st \<subseteq> visited (snd (callAll (addComment env) d fs st))"
proof (induction fs arbitrary: st)
  case Nil
  then show ?case by simp
next
  case (Cons f fs)
  obtain v cl p nl ic where f: "f = ((v, cl, p, nl), ic)" by (metis prod.exhaust)
  obtain res st1 where a: "addComment env d v cl p nl ic st = (res, st1)" by fastforce
  have "visited st \<subseteq> visited st1"
    using addComment_visited [of env d v cl p nl ic st] a by auto
  moreover have "visited st1 \<subseteq> visited (snd (callAll (addComment env) d fs st1))"
    by (rule Cons.IH)
  ultimately show ?case using f a
    by (auto split: sum.splits prod.splits)
qed

lemma callAll_fresh:
  "callAll (addComment env) d fs st = (res, st') \<Longrightarrow>
     length (heap st) \<le> length (heap st') \<and>
     (\<forall>rs r. res = Inr rs \<longrightarrow> Some r \<in> set rs \<longrightarrow> length (heap st) \<le> r \<and> r < length (heap st'))"
proof (induction fs arbitrary: st res st')
  case Nil
  then show ?case by auto
next
  case (Cons f fs)
  obtain v cl p nl ic where f: "f = ((v, cl, p, nl), ic)" by (metis prod.exhaust)
  obtain res1 st1 where a: "addComment env d v cl p nl ic st = (res1, st1)" by fastforce
  have l1: "length (heap st) \<le> length (heap st1)"
    using addComment_length [of env d v cl p nl ic st] a by (auto split: if_splits)
  show ?case
  proof (cases res1)
    case (Inl e)
    then show ?thesis using Cons.prems f a l1 by auto
  next
    case (Inr r1)
    obtain res2 st2 where c: "callAll (addComment env) d fs st1 = (res2, st2)" by fastforce
    note ih = Cons.IH [OF c]
    have r1: "\<And>r. r1 = Some r \<Longrightarrow> r = length (heap st) \<and> r < length (heap st1)"
      using a Inr addComment_Some [of env d v cl p nl ic st _ st1]
        addComment_length [of env d v cl p nl ic st]
      by (auto simp: addComment_def split: if_splits)
    show ?thesis
    proof (cases res2)
      case (Inl e)
      then show ?thesis using Cons.prems f a Inr c ih l1 by auto
    next
      case (Inr rs2)
      then show ?thesis using Cons.prems f a \<open>res1 = Inr r1\<close> c ih l1 r1
        by (auto split: if_splits) force+
    qed
  qed
qed

subsection \<open>Duplicates\<close>

text \<open>
  C7 (a duplicate call is a silent no-op). When the visited key of a call is already in
  the visited set, \<open>_addComment\<close> returns absent without raising, and the state it
  leaves is the state it found: the visited set, the association map and the store are
  unchanged, and the trace has no new entry, so nothing was logged and the doc-comment
  parser was not called.
\<close>

theorem duplicate_call_noop:
  assumes "visitedKey d commentLoc \<in> visited st"
  shows "addComment env d commentValue commentLoc p nodeLoc includeContext st = (Inr None, st)"
  using assms by (simp add: addComment_def)

theorem duplicate_call_noop_witness:
  "visitedKey sampleData (locAt 1 0) \<in> visited (emptyState\<lparr>visited := {''a.js:1:0''}\<rparr>)
   \<and> addComment (sampleEnv (\<lambda>ty. []) []) sampleData ''A class'' (locAt 1 0) classPath (locAt 2 0) True
       (emptyState\<lparr>visited := {''a.js:1:0''}\<rparr>)
     = (Inr None, emptyState\<lparr>visited := {''a.js:1:0''}\<rparr>)"
proof -
  have k: "visitedKey sampleData (locAt 1 0) = ''a.js:1:0''"
    by code_simp
  then have v: "visitedKey sampleData (locAt 1 0) \<in> visited (emptyState\<lparr>visited := {''a.js:1:0''}\<rparr>)"
    by simp
  show ?thesis
    using v duplicate_call_noop [OF v] by simp
qed

text \<open>
  C1 (dedup idempotence), amended. After a first call for a visited key not seen before,
  and whatever calls come between, a second call with the same visited key returns
  absent and leaves the state as it is. The first call returns the comment's record,
  newly appended to the store, unless it is a context-capturing call on a constructor:
  there the constructor rule decides (C2, C3).
\<close>

theorem dedup_idempotence:
  assumes "visitedKey d commentLoc \<notin> visited st"
    and "addComment env d commentValue commentLoc p nodeLoc includeContext st = (res1, st1)"
    and "callAll (addComment env) dm between st1 = (res, st2)"
    and "visitedKey d' commentLoc' = visitedKey d commentLoc"
  shows "addComment env d' commentValue' commentLoc' p' nodeLoc' includeContext' st2 = (Inr None, st2)
     \<and> (\<not> (includeContext \<and> isClassMethod p \<and> map_option kind (node p) = Some ''constructor'')
        \<longrightarrow> res1 = Inr (Some (length (heap st)))
          \<and> heap st1 = heap st @ [parse env commentValue commentLoc (buildContext d p nodeLoc includeContext)])"
proof -
  have "visitedKey d commentLoc \<in> visited st1"
    using addComment_visited [of env d commentValue commentLoc p nodeLoc includeContext st] assms(2)
    by simp
  then have "visitedKey d' commentLoc' \<in> visited st2"
    using callAll_visited [of st1 env dm between] assms(3,4) by auto
  then have a: "addComment env d' commentValue' commentLoc' p' nodeLoc' includeContext' st2 = (Inr None, st2)"
    by (simp add: addComment_def)
  have b: "\<not> (includeContext \<and> isClassMethod p \<and> map_option kind (node p) = Some ''constructor'')
        \<longrightarrow> res1 = Inr (Some (length (heap st)))
          \<and> heap st1 = heap st @ [parse env commentValue commentLoc (buildContext d p nodeLoc includeContext)]"
    using assms(1,2) by (auto simp: addComment_def Let_def split: if_splits)
  from a b show ?thesis by blast
qed

theorem dedup_idempotence_witness:
  "fst (addComment (sampleEnv (\<lambda>ty. []) []) sampleData ''A class'' (locAt 1 0) classPath (locAt 2 0)
          True emptyState) = Inr (Some 0)
   \<and> addComment (sampleEnv (\<lambda>ty. []) []) sampleData ''A class'' (locAt 1 0) programPath (locAt 1 0)
          False
          (snd (callAll (addComment (sampleEnv (\<lambda>ty. []) [])) sampleData
                  [((''Creates A'', locAt 3 2, ctorPath, locAt 4 2), True)] classDocumented))
     = (Inr None,
        snd (callAll (addComment (sampleEnv (\<lambda>ty. []) [])) sampleData
                  [((''Creates A'', locAt 3 2, ctorPath, locAt 4 2), True)] classDocumented))"
proof -
  let ?env = "sampleEnv (\<lambda>ty. []) [] :: unit env"
  have h1: "visitedKey sampleData (locAt 1 0) \<notin> visited emptyState"
    by (simp add: emptyState_def)
  have h2: "addComment ?env sampleData ''A class'' (locAt 1 0) classPath (locAt 2 0) True emptyState
      = (fst (addComment ?env sampleData ''A class'' (locAt 1 0) classPath (locAt 2 0) True emptyState),
         classDocumented)"
    by (simp add: classDocumented_def)
  have n: "\<not> isClassMethod classPath" by code_simp
  show ?thesis
    using dedup_idempotence [where dm = sampleData
        and between = "[((''Creates A'', locAt 3 2, ctorPath, locAt 4 2), True)]"
        and commentValue' = "''A class''" and p' = programPath and nodeLoc' = "locAt 1 0"
        and includeContext' = False,
        OF h1 h2 prod.collapse [symmetric] refl] n
    by (simp add: emptyState_def)
qed

text \<open>C1 as stated fails: the first call for a \<open>hideconstructor\<close> comment on the
  constructor of an undocumented class returns absent.\<close>

theorem first_call_absent_counterexample:
  "visitedKey sampleData (locAt 3 2) \<notin> visited emptyState
   \<and> fst (addComment (sampleEnv (\<lambda>ty. []) []) sampleData ''@hideconstructor'' (locAt 3 2) ctorPath
           (locAt 4 2) True emptyState) = Inr None"
  by code_simp

subsection \<open>The context object\<close>

lemma substring_verbatim: "a \<le> b \<Longrightarrow> b \<le> length s \<Longrightarrow> substring s a b = take (b - a) (drop a s)"
  by (simp add: substring_def Let_def min_def max_def)



section \<open>The constructor rule\<close>

text \<open>
  C3 (constructor merge, absent parent). A context-capturing call on a constructor (a
  class method of kind constructor, with a parent and a grandparent path) whose
  grandparent node has no record in the association map, and which is not itself stored
  under the grandparent's node, raises no error: it returns absent when the comment is
  marked \<open>hideconstructor\<close> and the comment's own record otherwise. In both cases the
  record is appended to the store and no other record changes.
\<close>

theorem constructor_absent_parent:
  assumes "visitedKey d commentLoc \<notin> visited st"
    and "isClassMethod p" and "map_option kind (node p) = Some ''constructor''"
    and "parentPath p = Some pp" and "parentPath pp = Some gp"
    and "commentsByNode st (nodeKey gp) = None"
    and "nodeKey (case findTarget env p of Some q \<Rightarrow> q | None \<Rightarrow> p) \<noteq> nodeKey gp"
    and "c = parse env commentValue commentLoc (buildContext d p nodeLoc True)"
    and "addComment env d commentValue commentLoc p nodeLoc True st = (res, st')"
  shows "res = (if hideconstructor c then Inr None else Inr (Some (length (heap st))))
     \<and> heap st' = heap st @ [c]"
  using assms
  by (auto simp: addComment_def constructorRule_def Let_def nth_append)

theorem constructor_absent_parent_witness:
  "fst (addComment (sampleEnv (\<lambda>ty. []) []) sampleData ''Creates A'' (locAt 3 2) ctorPath
          (locAt 4 2) True emptyState) = Inr (Some 0)
   \<and> fst (addComment (sampleEnv (\<lambda>ty. []) []) sampleData ''@hideconstructor'' (locAt 3 2) ctorPath
          (locAt 4 2) True emptyState) = Inr None"
proof -
  let ?env = "sampleEnv (\<lambda>ty. []) [] :: unit env"
  have h1: "visitedKey sampleData (locAt 3 2) \<notin> visited emptyState"
    by (simp add: emptyState_def)
  have h2: "isClassMethod ctorPath" by code_simp
  have h3: "map_option kind (node ctorPath) = Some ''constructor''" by code_simp
  have h4: "parentPath ctorPath = Some bodyPath" by (simp add: ctorPath_def)
  have h5: "parentPath bodyPath = Some classPath" by (simp add: bodyPath_def)
  have h6: "commentsByNode emptyState (nodeKey classPath) = None" by (simp add: emptyState_def)
  have h7: "nodeKey (case findTarget ?env ctorPath of Some q \<Rightarrow> q | None \<Rightarrow> ctorPath) \<noteq> nodeKey classPath"
    by code_simp
  have n: "\<not> hideconstructor (parse ?env ''Creates A'' (locAt 3 2) (buildContext sampleData ctorPath (locAt 4 2) True))"
    by (simp add: sampleEnv_def sampleParse_def)
  have y: "hideconstructor (parse ?env ''@hideconstructor'' (locAt 3 2) (buildContext sampleData ctorPath (locAt 4 2) True))"
    by (simp add: sampleEnv_def sampleParse_def)
  show ?thesis
    using constructor_absent_parent [where commentValue = "''Creates A''" and nodeLoc = "locAt 4 2",
        OF h1 h2 h3 h4 h5 h6 h7 refl prod.collapse [symmetric]]
      constructor_absent_parent [where commentValue = "''@hideconstructor''" and nodeLoc = "locAt 4 2",
        OF h1 h2 h3 h4 h5 h6 h7 refl prod.collapse [symmetric]] n y
    by (simp add: emptyState_def)
qed

section \<open>The orchestrator\<close>

lemma callAll_append:
  "callAll cb d (xs @ ys) st =
     (case callAll cb d xs st of
        (Inl e, st1) \<Rightarrow> (Inl e, st1)
      | (Inr rs, st1) \<Rightarrow>
          (case callAll cb d ys st1 of
             (Inl e, st2) \<Rightarrow> (Inl e, st2)
           | (Inr rs', st2) \<Rightarrow> (Inr (rs @ rs'), st2)))"
proof (induction xs arbitrary: st)
  case Nil
  then show ?case by (simp split: prod.splits sum.splits)
next
  case (Cons x xs)
  obtain v cl p nl ic where x: "x = ((v, cl, p, nl), ic)" by (metis prod.exhaust)
  show ?case unfolding x using Cons.IH
    by (simp split: prod.splits sum.splits)
qed

lemma callAll_Nil_right:
  "(case callAll cb d xs st of
        (Inl e, st1) \<Rightarrow> (Inl e, st1)
      | (Inr rs, st1) \<Rightarrow> (Inr (rs @ []), st1)) = callAll cb d xs st"
  by (simp split: prod.splits sum.splits)

lemma flatMap_strategies:
  "flatMap (if documentExported cfg
            then [walkExported env]
            else [walkComments env ''leadingComments'' True,
                  walkComments env ''innerComments'' False,
                  walkComments env ''trailingComments'' False])
           (\<lambda>fn. fn tree d cb) st
   = callAll cb d (findings env cfg tree d) st"
  by (simp add: findings_def walkExported_def walkComments_def callAll_append
        split: prod.splits sum.splits)

lemma parseJavaScript_calls:
  "parseJavaScript env w d cfg =
     (case callAll (addComment env) d (findings env cfg (parseToAst env (source d)) d)
             \<lparr>heap = heap w, trace = trace w, visited = {}, commentsByNode = Map.empty\<rparr> of
        (res, st) \<Rightarrow>
          (case res of Inl e \<Rightarrow> Inl e | Inr cs \<Rightarrow> Inr (map the (filter (kept (heap st)) cs)),
           \<lparr>heap = heap st, trace = trace st\<rparr>))"
  unfolding parseJavaScript_def Let_def flatMap_strategies ..

text \<open>
  C6 (strategy selection and ordering). \<open>parseJavaScript\<close> makes the callback calls of
  exactly one strategy family: those of the exported-symbols walker when
  \<open>documentExported\<close> is true, otherwise those of the leading-, the inner- and the
  trailing-comments walker, in that order. What it returns is the results of these calls in
  the order of the calls, less the absent ones and the \<open>lends\<close> records; it is not
  sorted by \<open>sortKey\<close>: on the sample file the record of line 9 precedes the record of
  line 2.
\<close>

theorem strategy_selection_and_order:
  "parseJavaScript env w d cfg =
     (let tree = parseToAst env (source d);
          calls = (if documentExported cfg then exportedOf env tree d
                   else map (\<lambda>f. (f, True)) (commentsOf env ''leadingComments'' tree d)
                      @ map (\<lambda>f. (f, False)) (commentsOf env ''innerComments'' tree d)
                      @ map (\<lambda>f. (f, False)) (commentsOf env ''trailingComments'' tree d));
          (res, st) = callAll (addComment env) d calls
                        \<lparr>heap = heap w, trace = trace w, visited = {}, commentsByNode = Map.empty\<rparr>
      in (case res of Inl e \<Rightarrow> Inl e | Inr cs \<Rightarrow> Inr (map the (filter (kept (heap st)) cs)),
          \<lparr>heap = heap st, trace = trace st\<rparr>))
   \<and> (\<exists>out w'. parseJavaScript (sampleEnv sampleComments []) freshProcess sampleData allComments
                  = (Inr out, w')
        \<and> \<not> sorted (map (\<lambda>r. ctx_sortKey (comment_context (heap w' ! r))) out))"
proof
  show "parseJavaScript env w d cfg =
     (let tree = parseToAst env (source d);
          calls = (if documentExported cfg then exportedOf env tree d
                   else map (\<lambda>f. (f, True)) (commentsOf env ''leadingComments'' tree d)
                      @ map (\<lambda>f. (f, False)) (commentsOf env ''innerComments'' tree d)
                      @ map (\<lambda>f. (f, False)) (commentsOf env ''trailingComments'' tree d));
          (res, st) = callAll (addComment env) d calls
                        \<lparr>heap = heap w, trace = trace w, visited = {}, commentsByNode = Map.empty\<rparr>
      in (case res of Inl e \<Rightarrow> Inl e | Inr cs \<Rightarrow> Inr (map the (filter (kept (heap st)) cs)),
          \<lparr>heap = heap st, trace = trace st\<rparr>))"
    by (simp add: parseJavaScript_calls findings_def Let_def)
next
  let ?run = "parseJavaScript (sampleEnv sampleComments []) freshProcess sampleData allComments"
  have 1: "fst ?run = Inr [1, 3]" by code_simp
  have 2: "map (\<lambda>r. ctx_sortKey (comment_context (heap (snd ?run) ! r))) [1, 3]
      = [''a.js 00000009'', ''a.js 00000002'']" by code_simp
  have 3: "\<not> sorted [''a.js 00000009'', ''a.js 00000002'']" by simp
  have "?run = (Inr [1, 3], snd ?run)" using 1 by (metis prod.collapse)
  moreover have "\<not> sorted (map (\<lambda>r. ctx_sortKey (comment_context (heap (snd ?run) ! r))) [1, 3])"
    using 2 3 by simp
  ultimately show "\<exists>out w'. ?run = (Inr out, w')
        \<and> \<not> sorted (map (\<lambda>r. ctx_sortKey (comment_context (heap w' ! r))) out)"
    by blast
qed

theorem strategy_selection_and_order_witness:
  "fst (parseJavaScript (sampleEnv sampleComments []) freshProcess sampleData allComments) = Inr [1, 3]
   \<and> fst (parseJavaScript (sampleEnv sampleComments
             [((''Exported'', locAt 1 0, classPath, locAt 2 0), True)]) freshProcess sampleData
             \<lparr>documentExported = True\<rparr>) = Inr [0]"
proof -
  let ?env = "sampleEnv sampleComments [((''Exported'', locAt 1 0, classPath, locAt 2 0), True)]"
  note a = conjunct1 [OF strategy_selection_and_order
      [of "sampleEnv sampleComments []" freshProcess sampleData allComments]]
  note b = conjunct1 [OF strategy_selection_and_order
      [of ?env freshProcess sampleData "\<lparr>documentExported = True\<rparr>"]]
  have "fst (parseJavaScript (sampleEnv sampleComments []) freshProcess sampleData allComments)
      = Inr [1, 3]"
    unfolding a by code_simp
  moreover have "fst (parseJavaScript ?env freshProcess sampleData \<lparr>documentExported = True\<rparr>)
      = Inr [0]"
    unfolding b by code_simp
  ultimately show ?thesis by simp
qed

text \<open>
  C4 (lends filtering). No record that \<open>parseJavaScript\<close> returns has a truthy
  \<open>lends\<close> marker in the store the run leaves. (In the witness the run produces such a
  record, at reference 0, and does not return it.)
\<close>

theorem lends_filtered:
  assumes "parseJavaScript env w d cfg = (Inr out, w')"
  shows "\<forall>r \<in> set out. \<not> truthy (lends (heap w' ! r))"
  using assms
  by (auto simp: parseJavaScript_def Let_def kept_def split: prod.splits sum.splits option.splits)

theorem lends_filtered_witness:
  "fst (parseJavaScript (sampleEnv sampleComments []) freshProcess sampleData allComments) = Inr [1, 3]
   \<and> lends (heap (snd (parseJavaScript (sampleEnv sampleComments []) freshProcess sampleData
                         allComments)) ! 0) = Some ''A''
   \<and> \<not> truthy (lends (heap (snd (parseJavaScript (sampleEnv sampleComments []) freshProcess
                                   sampleData allComments)) ! 1))
   \<and> \<not> truthy (lends (heap (snd (parseJavaScript (sampleEnv sampleComments []) freshProcess
                                   sampleData allComments)) ! 3))"
proof -
  let ?run = "parseJavaScript (sampleEnv sampleComments []) freshProcess sampleData allComments"
  have 1: "fst ?run = Inr [1, 3]" by code_simp
  have 2: "lends (heap (snd ?run) ! 0) = Some ''A''" by code_simp
  have "?run = (Inr [1, 3], snd ?run)" using 1 by (metis prod.collapse)
  from lends_filtered [OF this] 1 2 show ?thesis by simp
qed

subsection \<open>Calls without context capture\<close>

lemma addComment_nocontext:
  assumes "addComment env d v cl p nl False st = (res, st')"
  shows "commentsByNode st' = commentsByNode st \<and>
     (if visitedKey d cl \<in> visited st then res = Inr None \<and> st' = st
      else res = Inr (Some (length (heap st)))
         \<and> heap st' = heap st @ [parse env v cl (buildContext d p nl False)]
         \<and> trace st' = trace st @ [ParseCall v cl (buildContext d p nl False)])"
  using assms by (auto simp: addComment_def Let_def)

lemma buildContext_nocontext: "ast (buildContext d p nl False) = None \<and> code (buildContext d p nl False) = None"
  by (simp add: buildContext_def)

lemma callAll_nocontext:
  "callAll (addComment env) d (map (\<lambda>f. (f, False)) fs) st = (res, st') \<Longrightarrow>
     commentsByNode st' = commentsByNode st \<and>
     (\<exists>rs. res = Inr rs \<and> map the (filter (\<lambda>c. c \<noteq> None) rs) = [length (heap st)..<length (heap st')]) \<and>
     (\<exists>new. heap st' = heap st @ new) \<and>
     (\<exists>tr. trace st' = trace st @ tr \<and>
        (\<forall>e \<in> set tr. \<exists>v cl c. e = ParseCall v cl c \<and> ast c = None \<and> code c = None))"
proof (induction fs arbitrary: st res st')
  case Nil
  then show ?case by auto
next
  case (Cons f fs)
  obtain v cl p nl where f: "f = (v, cl, p, nl)" by (metis prod.exhaust)
  obtain res1 st1 where a: "addComment env d v cl p nl False st = (res1, st1)" by fastforce
  obtain res2 st2 where c: "callAll (addComment env) d (map (\<lambda>f. (f, False)) fs) st1 = (res2, st2)"
    by fastforce
  note one = addComment_nocontext [OF a]
  note ih = Cons.IH [OF c]
  from ih obtain rs2 new tr where
    rs2: "res2 = Inr rs2" "map the (filter (\<lambda>c. c \<noteq> None) rs2) = [length (heap st1)..<length (heap st2)]"
    and new: "heap st2 = heap st1 @ new"
    and tr: "trace st2 = trace st1 @ tr"
      "\<forall>e \<in> set tr. \<exists>v cl c. e = ParseCall v cl c \<and> ast c = None \<and> code c = None"
    by blast
  show ?case
  proof (cases "visitedKey d cl \<in> visited st")
    case True
    then have "res1 = Inr None" "st1 = st" using one by auto
    then have "res = Inr (None # rs2)" "st' = st2"
      using Cons.prems f a c rs2(1) by auto
    then show ?thesis using ih rs2 \<open>st1 = st\<close> by auto
  next
    case False
    then have r1: "res1 = Inr (Some (length (heap st)))"
      and h1: "heap st1 = heap st @ [parse env v cl (buildContext d p nl False)]"
      and t1: "trace st1 = trace st @ [ParseCall v cl (buildContext d p nl False)]"
      using one by auto
    have res: "res = Inr (Some (length (heap st)) # rs2)" and st': "st' = st2"
      using Cons.prems f a c rs2(1) r1 by auto
    have "length (heap st) < length (heap st2)" using new h1 by simp
    then have "[length (heap st)..<length (heap st2)]
        = length (heap st) # [length (heap st1)..<length (heap st2)]"
      using h1 by (simp add: upt_conv_Cons)
    then have 1: "map the (filter (\<lambda>c. c \<noteq> None) (Some (length (heap st)) # rs2))
        = [length (heap st)..<length (heap st2)]"
      using rs2(2) by simp
    have 2: "heap st2 = heap st @ (parse env v cl (buildContext d p nl False) # new)"
      using new h1 by simp
    have 3: "trace st2 = trace st @ (ParseCall v cl (buildContext d p nl False) # tr)"
      using tr(1) t1 by simp
    have 4: "\<forall>e \<in> set (ParseCall v cl (buildContext d p nl False) # tr).
        \<exists>v cl c. e = ParseCall v cl c \<and> ast c = None \<and> code c = None"
      using tr(2) buildContext_nocontext by auto
    have 5: "commentsByNode st2 = commentsByNode st" using ih one by simp
    show ?thesis unfolding res st' using 1 2 3 4 5 by blast
  qed
qed

text \<open>
  C10 (context capture is for leading comments only, outside exported mode). With
  \<open>documentExported\<close> false, \<open>parseJavaScript\<close> is the leading-comments walker with
  the context flag true followed by the inner- and trailing-comments walkers with the flag
  false. Once the leading pass has ended, the two later passes raise no error, leave the
  association map as the leading pass left it, change no record already in the store (so
  nothing is merged into a class's record), return every record they create (so none is
  suppressed: the references returned are exactly those of the records appended), and add
  to the trace nothing but parser calls whose context has neither \<open>ast\<close> nor \<open>code\<close>
  (so no constructor diagnostic either).
\<close>

theorem context_capture_leading_only:
  assumes "\<not> documentExported cfg"
    and "tree = parseToAst env (source d)"
    and "walkComments env ''leadingComments'' True tree d (addComment env)
           \<lparr>heap = heap w, trace = trace w, visited = {}, commentsByNode = Map.empty\<rparr> = (Inr rs1, st1)"
    and "walkComments env ''innerComments'' False tree d (addComment env) st1 = (res2, st2)"
    and "walkComments env ''trailingComments'' False tree d (addComment env) st2 = (res3, st3)"
  shows "\<exists>rs2 rs3. res2 = Inr rs2 \<and> res3 = Inr rs3
     \<and> parseJavaScript env w d cfg
         = (Inr (map the (filter (kept (heap st3)) (rs1 @ rs2 @ rs3))),
            \<lparr>heap = heap st3, trace = trace st3\<rparr>)
     \<and> commentsByNode st3 = commentsByNode st1
     \<and> (\<exists>new. heap st3 = heap st1 @ new)
     \<and> map the (filter (\<lambda>c. c \<noteq> None) (rs2 @ rs3)) = [length (heap st1)..<length (heap st3)]
     \<and> (\<exists>tr. trace st3 = trace st1 @ tr \<and>
          (\<forall>e \<in> set tr. \<exists>v cl c. e = ParseCall v cl c \<and> ast c = None \<and> code c = None))"
proof -
  note i = callAll_nocontext [OF assms(4) [unfolded walkComments_def]]
  note t = callAll_nocontext [OF assms(5) [unfolded walkComments_def]]
  from i obtain rs2 new2 tr2 where
    rs2: "res2 = Inr rs2" "map the (filter (\<lambda>c. c \<noteq> None) rs2) = [length (heap st1)..<length (heap st2)]"
    and new2: "heap st2 = heap st1 @ new2"
    and tr2: "trace st2 = trace st1 @ tr2"
      "\<forall>e \<in> set tr2. \<exists>v cl c. e = ParseCall v cl c \<and> ast c = None \<and> code c = None"
    by blast
  from t obtain rs3 new3 tr3 where
    rs3: "res3 = Inr rs3" "map the (filter (\<lambda>c. c \<noteq> None) rs3) = [length (heap st2)..<length (heap st3)]"
    and new3: "heap st3 = heap st2 @ new3"
    and tr3: "trace st3 = trace st2 @ tr3"
      "\<forall>e \<in> set tr3. \<exists>v cl c. e = ParseCall v cl c \<and> ast c = None \<and> code c = None"
    by blast
  have p: "parseJavaScript env w d cfg
         = (Inr (map the (filter (kept (heap st3)) (rs1 @ rs2 @ rs3))),
            \<lparr>heap = heap st3, trace = trace st3\<rparr>)"
    using assms rs2(1) rs3(1) by (simp add: parseJavaScript_def Let_def)
  have m: "commentsByNode st3 = commentsByNode st1" using i t by simp
  have h: "heap st3 = heap st1 @ (new2 @ new3)" using new2 new3 by simp
  have "length (heap st1) \<le> length (heap st2)" "length (heap st2) \<le> length (heap st3)"
    using new2 new3 by simp_all
  then have "[length (heap st1)..<length (heap st3)]
      = [length (heap st1)..<length (heap st2)] @ [length (heap st2)..<length (heap st3)]"
    by (metis le_Suc_ex upt_add_eq_append)
  then have u: "map the (filter (\<lambda>c. c \<noteq> None) (rs2 @ rs3)) = [length (heap st1)..<length (heap st3)]"
    using rs2(2) rs3(2) by simp
  have tr: "trace st3 = trace st1 @ (tr2 @ tr3)" using tr2(1) tr3(1) by simp
  have e: "\<forall>e \<in> set (tr2 @ tr3). \<exists>v cl c. e = ParseCall v cl c \<and> ast c = None \<and> code c = None"
    using tr2(2) tr3(2) by auto
  show ?thesis using rs2(1) rs3(1) p m h u tr e by blast
qed

theorem context_capture_leading_only_witness:
  "commentsByNode afterTrailing = commentsByNode afterLeading
   \<and> length (heap afterLeading) = 3 \<and> length (heap afterTrailing) = 4
   \<and> fst (walkComments (sampleEnv sampleComments []) ''trailingComments'' False () sampleData
            (addComment (sampleEnv sampleComments [])) afterInner) = Inr [None, Some 3]
   \<and> fst (parseJavaScript (sampleEnv sampleComments []) freshProcess sampleData allComments)
       = Inr (map the (filter (kept (heap afterTrailing)) ([Some 0, Some 1, None] @ [] @ [None, Some 3])))"
proof -
  let ?env = "sampleEnv sampleComments [] :: unit env"
  have h1: "\<not> documentExported allComments" by (simp add: allComments_def)
  have h2: "() = parseToAst ?env (source sampleData)" by simp
  have l: "fst (walkComments ?env ''leadingComments'' True () sampleData (addComment ?env)
           \<lparr>heap = heap freshProcess, trace = trace freshProcess, visited = {},
            commentsByNode = Map.empty\<rparr>) = Inr [Some 0, Some 1, None]"
    by code_simp
  have h3: "walkComments ?env ''leadingComments'' True () sampleData (addComment ?env)
           \<lparr>heap = heap freshProcess, trace = trace freshProcess, visited = {},
            commentsByNode = Map.empty\<rparr> = (Inr [Some 0, Some 1, None], afterLeading)"
    unfolding afterLeading_def using l by (metis prod.collapse)
  have h4: "walkComments ?env ''innerComments'' False () sampleData (addComment ?env) afterLeading
      = (fst (walkComments ?env ''innerComments'' False () sampleData (addComment ?env) afterLeading),
         afterInner)"
    by (simp add: afterInner_def)
  have h5: "walkComments ?env ''trailingComments'' False () sampleData (addComment ?env) afterInner
      = (fst (walkComments ?env ''trailingComments'' False () sampleData (addComment ?env) afterInner),
         afterTrailing)"
    by (simp add: afterTrailing_def)
  have i: "fst (walkComments ?env ''innerComments'' False () sampleData (addComment ?env) afterLeading)
      = Inr []" by code_simp
  have t: "fst (walkComments ?env ''trailingComments'' False () sampleData (addComment ?env) afterInner)
      = Inr [None, Some 3]" by code_simp
  have n: "length (heap afterLeading) = 3" by code_simp
  have n': "length (heap afterTrailing) = 4" by code_simp
  from context_capture_leading_only [OF h1 h2 h3 h4 h5] obtain rs2 rs3 where
    r2: "fst (walkComments ?env ''innerComments'' False () sampleData (addComment ?env) afterLeading)
      = Inr rs2"
    and r3: "fst (walkComments ?env ''trailingComments'' False () sampleData (addComment ?env)
                  afterInner) = Inr rs3"
    and p: "parseJavaScript ?env freshProcess sampleData allComments
         = (Inr (map the (filter (kept (heap afterTrailing)) ([Some 0, Some 1, None] @ rs2 @ rs3))),
            \<lparr>heap = heap afterTrailing, trace = trace afterTrailing\<rparr>)"
    and m: "commentsByNode afterTrailing = commentsByNode afterLeading"
    by blast
  have "rs2 = []" using r2 i by simp
  moreover have "rs3 = [None, Some 3]" using r3 t by simp
  ultimately have "fst (parseJavaScript ?env freshProcess sampleData allComments)
       = Inr (map the (filter (kept (heap afterTrailing)) ([Some 0, Some 1, None] @ [] @ [None, Some 3])))"
    using p by simp
  then show ?thesis using m n n' t by simp
qed

subsection \<open>A run in a process that already holds records\<close>

lemma relocate_simps [simp]:
  "hideconstructor (relocate n c) = hideconstructor c"
  "lends (relocate n c) = lends c"
  "relocate n (c\<lparr>constructorComment := Some r\<rparr>) = (relocate n c)\<lparr>constructorComment := Some (n + r)\<rparr>"
  by (simp_all add: relocate_def)

lemma relocate_fresh: "constructorComment c = None \<Longrightarrow> relocate n c = c"
  by (simp add: relocate_def)

lemma constructorRule_related:
  assumes "related H T st st'" and "r < length (heap st)"
  shows "fst (constructorRule st' p (length H + r))
           = map_sum (\<lambda>e. e) (map_option (\<lambda>r. length H + r)) (fst (constructorRule st p r))
     \<and> related H T (snd (constructorRule st p r)) (snd (constructorRule st' p (length H + r)))"
proof -
  have hc: "hideconstructor (heap st' ! (length H + r)) = hideconstructor (heap st ! r)"
    using assms by (simp add: related_def)
  have upd: "\<And>pc. (heap st')[length H + pc := (heap st' ! (length H + pc))\<lparr>constructorComment := Some (length H + r)\<rparr>]
      = H @ map (relocate (length H)) ((heap st)[pc := (heap st ! pc)\<lparr>constructorComment := Some r\<rparr>])"
  proof -
    fix pc
    show "(heap st')[length H + pc := (heap st' ! (length H + pc))\<lparr>constructorComment := Some (length H + r)\<rparr>]
      = H @ map (relocate (length H)) ((heap st)[pc := (heap st ! pc)\<lparr>constructorComment := Some r\<rparr>])"
    proof (cases "pc < length (heap st)")
      case True
      then show ?thesis using assms(1)
        by (simp add: related_def list_update_append map_update)
    next
      case False
      then show ?thesis using assms(1)
        by (simp add: related_def list_update_append list_update_beyond)
    qed
  qed
  show ?thesis
    using assms(1) hc upd
    by (cases "hideconstructor (heap st ! r)")
       (auto simp: constructorRule_def Let_def related_def split: option.splits)
qed

lemma addComment_related:
  assumes "related H T st st'"
    and "\<forall>v cl c. constructorComment (parse env v cl c) = None"
  shows "fst (addComment env d v cl p nl ic st')
           = map_sum (\<lambda>e. e) (map_option (\<lambda>r. length H + r)) (fst (addComment env d v cl p nl ic st))
     \<and> related H T (snd (addComment env d v cl p nl ic st)) (snd (addComment env d v cl p nl ic st'))"
proof (cases "visitedKey d cl \<in> visited st")
  case True
  then show ?thesis using assms(1) by (simp add: addComment_def related_def)
next
  case False
  let ?c = "parse env v cl (buildContext d p nl ic)"
  let ?e = "ParseCall v cl (buildContext d p nl ic)"
  let ?s2 = "st\<lparr>visited := insert (visitedKey d cl) (visited st), heap := heap st @ [?c],
                 trace := trace st @ [?e]\<rparr>"
  let ?s2' = "st'\<lparr>visited := insert (visitedKey d cl) (visited st'), heap := heap st' @ [?c],
                 trace := trace st' @ [?e]\<rparr>"
  have fresh: "relocate (length H) ?c = ?c" using assms(2) by (simp add: relocate_fresh)
  have r2: "related H T ?s2 ?s2'" using assms(1) fresh by (simp add: related_def)
  have len: "length (heap st') = length H + length (heap st)" using assms(1) by (simp add: related_def)
  have nv: "visitedKey d cl \<notin> visited st'" using False assms(1) by (simp add: related_def)
  show ?thesis
  proof (cases ic)
    case False
    then show ?thesis using \<open>visitedKey d cl \<notin> visited st\<close> nv r2 len
      by (simp add: addComment_def Let_def)
  next
    case True
    let ?k = "nodeKey (case findTarget env p of Some q \<Rightarrow> q | None \<Rightarrow> p)"
    let ?s3 = "?s2\<lparr>commentsByNode := (commentsByNode ?s2)(?k \<mapsto> length (heap st))\<rparr>"
    let ?s3' = "?s2'\<lparr>commentsByNode := (commentsByNode ?s2')(?k \<mapsto> length H + length (heap st))\<rparr>"
    have r3: "related H T ?s3 ?s3'" using r2 by (auto simp: related_def)
    have l3: "length (heap st) < length (heap ?s3)" by simp
    note cr = constructorRule_related [OF r3 l3, of p]
    show ?thesis
    proof (cases "isClassMethod p \<and> map_option kind (node p) = Some ''constructor''")
      case True
      then show ?thesis using \<open>ic\<close> \<open>visitedKey d cl \<notin> visited st\<close> nv cr len
        by (simp add: addComment_def Let_def)
    next
      case False
      then show ?thesis using \<open>ic\<close> \<open>visitedKey d cl \<notin> visited st\<close> nv r3 len
        by (auto simp add: addComment_def Let_def)
    qed
  qed
qed

lemma callAll_related:
  assumes "\<forall>v cl c. constructorComment (parse env v cl c) = None"
  shows "related H T st st' \<Longrightarrow>
     fst (callAll (addComment env) d fs st')
           = map_sum (\<lambda>e. e) (map (map_option (\<lambda>r. length H + r))) (fst (callAll (addComment env) d fs st))
     \<and> related H T (snd (callAll (addComment env) d fs st)) (snd (callAll (addComment env) d fs st'))"
proof (induction fs arbitrary: st st')
  case Nil
  then show ?case by simp
next
  case (Cons f fs)
  obtain v cl p nl ic where f: "f = ((v, cl, p, nl), ic)" by (metis prod.exhaust)
  obtain res1 st1 where a: "addComment env d v cl p nl ic st = (res1, st1)" by fastforce
  obtain res1' st1' where a': "addComment env d v cl p nl ic st' = (res1', st1')" by fastforce
  from addComment_related [OF Cons.prems assms, of d v cl p nl ic] a a'
  have r1: "res1' = map_sum (\<lambda>e. e) (map_option (\<lambda>r. length H + r)) res1" and rel: "related H T st1 st1'"
    by simp_all
  note ih = Cons.IH [OF rel]
  obtain res2 st2 where c: "callAll (addComment env) d fs st1 = (res2, st2)" by fastforce
  obtain res2' st2' where c': "callAll (addComment env) d fs st1' = (res2', st2')" by fastforce
  from ih c c' have r2: "res2' = map_sum (\<lambda>e. e) (map (map_option (\<lambda>r. length H + r))) res2"
    and rel2: "related H T st2 st2'" by simp_all
  show ?case unfolding f using a a' c c' r1 r2 rel rel2
    by (cases res1; cases res2) auto
qed

text \<open>
  C9 (per-file isolation and determinism). \<open>parseJavaScript\<close> starts from an empty
  visited set and an empty association map whatever the process has done before, so its
  result in any process \<open>w\<close> is its result in a fresh process: the same exception or the
  same sequence of records, the records allocated after those the process already holds
  (references shifted by their number), the earlier records and the earlier trace
  untouched. The doc-comment parser is assumed not to set \<open>constructorComment\<close>, which
  per section 3 of the spec only the merge rule populates. With source text present the
  exported function is \<open>parseJavaScript\<close>.
\<close>

theorem per_file_isolation:
  assumes "\<forall>v cl c. constructorComment (parse env v cl c) = None"
    and "parseJavaScript env \<lparr>heap = [], trace = []\<rparr> d cfg = (res0, w0)"
  shows "parseJavaScript env w d cfg
     = (map_sum (\<lambda>e. e) (map (\<lambda>r. length (heap w) + r)) res0,
        \<lparr>heap = heap w @ map (relocate (length (heap w))) (heap w0), trace = trace w @ trace w0\<rparr>)
     \<and> (source d \<noteq> [] \<longrightarrow> module_exports env w d cfg = parseJavaScript env w d cfg)"
proof -
  have m: "source d \<noteq> [] \<longrightarrow> module_exports env w d cfg = parseJavaScript env w d cfg"
    by (simp add: module_exports_def)
  let ?fs = "findings env cfg (parseToAst env (source d)) d"
  let ?s0 = "\<lparr>heap = [], trace = [], visited = {}, commentsByNode = Map.empty\<rparr> :: state"
  let ?s0' = "\<lparr>heap = heap w, trace = trace w, visited = {}, commentsByNode = Map.empty\<rparr> :: state"
  obtain res st where c: "callAll (addComment env) d ?fs ?s0 = (res, st)" by fastforce
  obtain res' st' where c': "callAll (addComment env) d ?fs ?s0' = (res', st')" by fastforce
  have "related (heap w) (trace w) ?s0 ?s0'" by (simp add: related_def)
  from callAll_related [OF assms(1) this, of d ?fs] c c'
  have r: "res' = map_sum (\<lambda>e. e) (map (map_option (\<lambda>r. length (heap w) + r))) res"
    and rel: "related (heap w) (trace w) st st'" by simp_all
  have w0: "w0 = \<lparr>heap = heap st, trace = trace st\<rparr>"
    and res0: "res0 = (case res of Inl e \<Rightarrow> Inl e | Inr cs \<Rightarrow> Inr (map the (filter (kept (heap st)) cs)))"
    using assms(2) c by (simp_all add: parseJavaScript_calls)
  have k: "\<And>cs c. res = Inr cs \<Longrightarrow> c \<in> set cs \<Longrightarrow>
      kept (heap st') (map_option (\<lambda>r. length (heap w) + r) c) = kept (heap st) c"
  proof -
    fix cs c assume "res = Inr cs" "c \<in> set cs"
    then have "\<And>r. c = Some r \<Longrightarrow> r < length (heap st)"
      using callAll_fresh [OF c] by auto
    then show "kept (heap st') (map_option (\<lambda>r. length (heap w) + r) c) = kept (heap st) c"
      using rel by (cases c) (simp_all add: kept_def related_def)
  qed
  have f: "\<And>cs. res = Inr cs \<Longrightarrow>
      map the (filter (kept (heap st')) (map (map_option (\<lambda>r. length (heap w) + r)) cs))
        = map (\<lambda>r. length (heap w) + r) (map the (filter (kept (heap st)) cs))"
  proof -
    fix cs assume cs: "res = Inr cs"
    have "filter (kept (heap st')) (map (map_option (\<lambda>r. length (heap w) + r)) cs)
        = map (map_option (\<lambda>r. length (heap w) + r)) (filter (kept (heap st)) cs)"
      using k [OF cs] by (simp add: filter_map o_def cong: filter_cong)
    moreover have "\<forall>c \<in> set (filter (kept (heap st)) cs). c \<noteq> None"
      by (auto simp: kept_def split: option.splits)
    ultimately show "map the (filter (kept (heap st')) (map (map_option (\<lambda>r. length (heap w) + r)) cs))
        = map (\<lambda>r. length (heap w) + r) (map the (filter (kept (heap st)) cs))"
      by (auto simp: o_def)
  qed
  have "parseJavaScript env w d cfg
     = (map_sum (\<lambda>e. e) (map (\<lambda>r. length (heap w) + r)) res0,
        \<lparr>heap = heap w @ map (relocate (length (heap w))) (heap w0), trace = trace w @ trace w0\<rparr>)"
    using c' r rel w0 res0 f
    by (cases res) (simp_all add: parseJavaScript_calls related_def)
  with m show ?thesis by blast
qed

theorem per_file_isolation_witness:
  "fst (parseJavaScript (sampleEnv sampleComments []) freshProcess sampleData allComments) = Inr [1, 3]
   \<and> length (heap usedProcess) = 1
   \<and> fst (parseJavaScript (sampleEnv sampleComments []) usedProcess sampleData allComments)
       = Inr [2, 4]"
proof -
  let ?env = "sampleEnv sampleComments [] :: unit env"
  have h: "\<forall>v cl c. constructorComment (parse ?env v cl c) = None"
    by (simp add: sampleEnv_def sampleParse_def)
  have 1: "fst (parseJavaScript ?env freshProcess sampleData allComments) = Inr [1, 3]"
    by code_simp
  have 2: "length (heap usedProcess) = 1" by code_simp
  have f: "parseJavaScript ?env \<lparr>heap = [], trace = []\<rparr> sampleData allComments
      = (fst (parseJavaScript ?env freshProcess sampleData allComments),
         snd (parseJavaScript ?env freshProcess sampleData allComments))"
    by (simp add: freshProcess_def)
  from conjunct1 [OF per_file_isolation [OF h f, of usedProcess]] 1 2 show ?thesis by simp
qed

section \<open>The constructor rule in a run\<close>

lemma constructorRule_map: "commentsByNode (snd (constructorRule st p r)) = commentsByNode st"
  by (simp add: constructorRule_def Let_def split: option.splits)

lemma addComment_map:
  "commentsByNode (snd (addComment env d v cl p nl ic st)) =
     (if visitedKey d cl \<notin> visited st \<and> ic
      then (commentsByNode st)(nodeKey (case findTarget env p of Some q \<Rightarrow> q | None \<Rightarrow> p)
             \<mapsto> length (heap st))
      else commentsByNode st)"
  by (simp add: addComment_def Let_def constructorRule_map)

lemma addComment_wfMap:
  assumes "wfMap st"
  shows "wfMap (snd (addComment env d v cl p nl ic st))"
proof -
  let ?s = "snd (addComment env d v cl p nl ic st)"
  have b: "\<And>k r. commentsByNode st k = Some r \<Longrightarrow> r < length (heap st)"
    and i: "\<And>k k' r. commentsByNode st k = Some r \<Longrightarrow> commentsByNode st k' = Some r \<Longrightarrow> k = k'"
    using assms by (auto simp: wfMap_def)
  show ?thesis
  proof (cases "visitedKey d cl \<notin> visited st \<and> ic")
    case True
    then have m: "commentsByNode ?s =
        (commentsByNode st)(nodeKey (case findTarget env p of Some q \<Rightarrow> q | None \<Rightarrow> p)
             \<mapsto> length (heap st))"
      and l: "length (heap ?s) = Suc (length (heap st))"
      by (simp_all add: addComment_map addComment_length)
    show ?thesis unfolding wfMap_def m l
      using b i by (auto simp: less_Suc_eq split: if_splits)
  next
    case False
    then have m: "commentsByNode ?s = commentsByNode st"
      by (auto simp: addComment_map)
    have l: "length (heap st) \<le> length (heap ?s)"
      by (simp add: addComment_length)
    show ?thesis unfolding wfMap_def m
      using b i l by (meson less_le_trans)
  qed
qed

lemma callAll_wfMap:
  "wfMap st \<Longrightarrow> wfMap (snd (callAll (addComment env) d fs st))"
proof (induction fs arbitrary: st)
  case Nil
  then show ?case by simp
next
  case (Cons f fs)
  obtain v cl p nl ic where f: "f = ((v, cl, p, nl), ic)" by (metis prod.exhaust)
  obtain res st1 where a: "addComment env d v cl p nl ic st = (res, st1)" by fastforce
  have w1: "wfMap st1" using addComment_wfMap [OF Cons.prems, of env d v cl p nl ic] a by simp
  show ?case
  proof (cases res)
    case (Inl e)
    then show ?thesis using f a w1 by simp
  next
    case (Inr r)
    obtain res2 st2 where c: "callAll (addComment env) d fs st1 = (res2, st2)" by fastforce
    then have "wfMap st2" using Cons.IH [OF w1] by simp
    then show ?thesis using f a Inr c by (cases res2) simp_all
  qed
qed

lemma nth_update_constructorComment:
  "pc < length h \<Longrightarrow>
     constructorComment (h[i := (h ! i)\<lparr>constructorComment := Some r\<rparr>] ! pc)
       = (if i = pc then Some r else constructorComment (h ! pc))"
  by (simp add: nth_list_update)

lemma constructorRule_class_record:
  assumes "pc < length (heap s)" and "constructorComment (heap s ! pc) = Some x"
    and "constructorRule s q r = (res, s1)"
  shows "constructorComment (heap s1 ! pc) = Some x
     \<or> (constructorComment (heap s1 ! pc) = Some r \<and> res = Inr None)"
  using assms
  by (cases "hideconstructor (heap s ! r)")
     (auto simp: constructorRule_def Let_def nth_update_constructorComment split: option.splits if_splits)

lemma constructorRule_class_record_kept:
  assumes "pc < length (heap s)" and "constructorComment (heap s ! pc) = Some x"
    and "\<And>pq gq. parentPath q = Some pq \<Longrightarrow> parentPath pq = Some gq
           \<Longrightarrow> commentsByNode s (nodeKey gq) \<noteq> Some pc"
  shows "constructorComment (heap (snd (constructorRule s q r)) ! pc) = Some x"
  using assms
  by (cases "hideconstructor (heap s ! r)")
     (auto simp: constructorRule_def Let_def nth_update_constructorComment split: option.splits if_splits)

lemma addComment_class_record:
  assumes "pc < length (heap s)" and "constructorComment (heap s ! pc) = Some x"
    and "addComment env d v cl q nl ic s = (res1, s1)"
  shows "constructorComment (heap s1 ! pc) = Some x
     \<or> (constructorComment (heap s1 ! pc) = Some (length (heap s)) \<and> res1 = Inr None)"
proof (cases "visitedKey d cl \<in> visited s")
  case True
  then show ?thesis using assms by (simp add: addComment_def)
next
  case False
  let ?s2 = "s\<lparr>visited := insert (visitedKey d cl) (visited s),
                heap := heap s @ [parse env v cl (buildContext d q nl ic)],
                trace := trace s @ [ParseCall v cl (buildContext d q nl ic)]\<rparr>"
  let ?s3 = "?s2\<lparr>commentsByNode := (commentsByNode ?s2)
                (nodeKey (case findTarget env q of Some t \<Rightarrow> t | None \<Rightarrow> q) \<mapsto> length (heap s))\<rparr>"
  have p3: "pc < length (heap ?s3)" and c3: "constructorComment (heap ?s3 ! pc) = Some x"
    using assms(1,2) by (simp_all add: nth_append)
  show ?thesis
  proof (cases "ic \<and> isClassMethod q \<and> map_option kind (node q) = Some ''constructor''")
    case True
    then have "constructorRule ?s3 q (length (heap s)) = (res1, s1)"
      using False assms(3) by (simp add: addComment_def Let_def)
    from constructorRule_class_record [OF p3 c3 this] show ?thesis .
  next
    case False
    then have "heap s1 = heap s @ [parse env v cl (buildContext d q nl ic)]"
      using \<open>visitedKey d cl \<notin> visited s\<close> assms(3)
      by (auto simp: addComment_def Let_def split: if_splits)
    then show ?thesis using assms(1,2) by (simp add: nth_append)
  qed
qed

lemma addComment_class_record_kept:
  assumes "pc < length (heap s)" and "constructorComment (heap s ! pc) = Some x"
    and "\<And>k. commentsByNode s k = Some pc \<Longrightarrow> k = K"
    and "\<forall>pq gq. ic \<longrightarrow> isClassMethod q \<longrightarrow> map_option kind (node q) = Some ''constructor''
           \<longrightarrow> parentPath q = Some pq \<longrightarrow> parentPath pq = Some gq \<longrightarrow> nodeKey gq \<noteq> K"
  shows "constructorComment (heap (snd (addComment env d v cl q nl ic s)) ! pc) = Some x"
proof (cases "visitedKey d cl \<in> visited s")
  case True
  then show ?thesis using assms(2) by (simp add: addComment_def)
next
  case False
  let ?s2 = "s\<lparr>visited := insert (visitedKey d cl) (visited s),
                heap := heap s @ [parse env v cl (buildContext d q nl ic)],
                trace := trace s @ [ParseCall v cl (buildContext d q nl ic)]\<rparr>"
  let ?s3 = "?s2\<lparr>commentsByNode := (commentsByNode ?s2)
                (nodeKey (case findTarget env q of Some t \<Rightarrow> t | None \<Rightarrow> q) \<mapsto> length (heap s))\<rparr>"
  have p3: "pc < length (heap ?s3)" and c3: "constructorComment (heap ?s3 ! pc) = Some x"
    using assms(1,2) by (simp_all add: nth_append)
  show ?thesis
  proof (cases "ic \<and> isClassMethod q \<and> map_option kind (node q) = Some ''constructor''")
    case True
    have n: "\<And>pq gq. parentPath q = Some pq \<Longrightarrow> parentPath pq = Some gq
           \<Longrightarrow> commentsByNode ?s3 (nodeKey gq) \<noteq> Some pc"
    proof -
      fix pq gq assume "parentPath q = Some pq" "parentPath pq = Some gq"
      then have "nodeKey gq \<noteq> K" using True assms(4) by blast
      then have "commentsByNode s (nodeKey gq) \<noteq> Some pc" using assms(3) by blast
      then show "commentsByNode ?s3 (nodeKey gq) \<noteq> Some pc"
        using assms(1) by simp
    qed
    have "addComment env d v cl q nl ic s = constructorRule ?s3 q (length (heap s))"
      using True False by (simp add: addComment_def Let_def)
    then show ?thesis using constructorRule_class_record_kept [OF p3 c3 n] by simp
  next
    case False
    then have "heap (snd (addComment env d v cl q nl ic s))
        = heap s @ [parse env v cl (buildContext d q nl ic)]"
      using \<open>visitedKey d cl \<notin> visited s\<close>
      by (auto simp: addComment_def Let_def split: if_splits)
    then show ?thesis using assms(1,2) by (simp add: nth_append)
  qed
qed

lemma addComment_owner:
  assumes "pc < length (heap s)" and "\<And>k. commentsByNode s k = Some pc \<Longrightarrow> k = K"
  shows "commentsByNode (snd (addComment env d v cl q nl ic s)) k = Some pc \<Longrightarrow> k = K"
  using assms by (auto simp: addComment_map split: if_splits)

lemma callAll_class_record:
  assumes "pc < length (heap s)" and "constructorComment (heap s ! pc) = Some x"
    and "x < length (heap s)" and "callAll (addComment env) d fs s = (res, s')"
  shows "\<exists>x'. constructorComment (heap s' ! pc) = Some x' \<and> (x' = x \<or> length (heap s) \<le> x')
     \<and> x' < length (heap s') \<and> (\<forall>rs. res = Inr rs \<longrightarrow> Some x' \<notin> set rs)"
  using assms
proof (induction fs arbitrary: s x res s')
  case Nil
  then show ?case by auto
next
  case (Cons f fs)
  obtain v cl q nl ic where f: "f = ((v, cl, q, nl), ic)" by (metis prod.exhaust)
  obtain res1 s1 where a: "addComment env d v cl q nl ic s = (res1, s1)" by fastforce
  have len: "length (heap s1) = (if visitedKey d cl \<in> visited s then length (heap s) else Suc (length (heap s)))"
    using addComment_length [of env d v cl q nl ic s] a by simp
  have same: "visitedKey d cl \<in> visited s \<Longrightarrow> s1 = s \<and> res1 = Inr None"
    using a by (simp add: addComment_def)
  from addComment_class_record [OF Cons.prems(1,2) a]
  obtain x1 where x1: "constructorComment (heap s1 ! pc) = Some x1"
    and x1c: "x1 = x \<or> (x1 = length (heap s) \<and> res1 = Inr None \<and> visitedKey d cl \<notin> visited s)"
    using same Cons.prems(2,3) by fastforce
  have x1l: "x1 < length (heap s1)" using x1c Cons.prems(3) len by (auto split: if_splits)
  have p1: "pc < length (heap s1)" using Cons.prems(1) len by (auto split: if_splits)
  show ?case
  proof (cases res1)
    case (Inl e)
    then have "res = Inl e" "s' = s1" using Cons.prems(4) f a by auto
    then show ?thesis using x1 x1c x1l by auto
  next
    case (Inr r1)
    obtain res2 s2 where c: "callAll (addComment env) d fs s1 = (res2, s2)" by fastforce
    from Cons.IH [OF p1 x1 x1l c] obtain x' where
      x': "constructorComment (heap s2 ! pc) = Some x'"
      and x'c: "x' = x1 \<or> length (heap s1) \<le> x'"
      and x'l: "x' < length (heap s2)"
      and x'r: "\<forall>rs. res2 = Inr rs \<longrightarrow> Some x' \<notin> set rs"
      by blast
    have s': "s' = s2" using Cons.prems(4) f a Inr c by (cases res2) auto
    have r1: "r1 \<noteq> Some x'"
    proof
      assume e: "r1 = Some x'"
      then have y: "x' = length (heap s)" using a Inr addComment_Some by blast
      have nv: "visitedKey d cl \<notin> visited s" using same Inr e by auto
      then have "length (heap s1) = Suc (length (heap s))" using len by simp
      then show False using x'c x1c y Cons.prems(3) Inr e by auto
    qed
    have g: "x' = x \<or> length (heap s) \<le> x'"
      using x'c x1c len by (auto split: if_splits)
    have "\<forall>rs. res = Inr rs \<longrightarrow> Some x' \<notin> set rs"
      using Cons.prems(4) f a Inr c x'r r1 by (cases res2) auto
    then show ?thesis using x' g x'l s' by blast
  qed
qed

lemma callAll_class_record_kept:
  assumes "pc < length (heap s)" and "constructorComment (heap s ! pc) = Some x"
    and "\<And>k. commentsByNode s k = Some pc \<Longrightarrow> k = K"
    and "\<forall>f \<in> set fs. \<forall>v cl q nl pq gq. f = ((v, cl, q, nl), True) \<longrightarrow> isClassMethod q
           \<longrightarrow> map_option kind (node q) = Some ''constructor''
           \<longrightarrow> parentPath q = Some pq \<longrightarrow> parentPath pq = Some gq \<longrightarrow> nodeKey gq \<noteq> K"
  shows "constructorComment (heap (snd (callAll (addComment env) d fs s)) ! pc) = Some x"
  using assms
proof (induction fs arbitrary: s)
  case Nil
  then show ?case by simp
next
  case (Cons f fs)
  obtain v cl q nl ic where f: "f = ((v, cl, q, nl), ic)" by (metis prod.exhaust)
  obtain res1 s1 where a: "addComment env d v cl q nl ic s = (res1, s1)" by fastforce
  have p1: "pc < length (heap s1)"
    using addComment_length [of env d v cl q nl ic s] a Cons.prems(1) by (auto split: if_splits)
  have k: "\<forall>pq gq. ic \<longrightarrow> isClassMethod q \<longrightarrow> map_option kind (node q) = Some ''constructor''
           \<longrightarrow> parentPath q = Some pq \<longrightarrow> parentPath pq = Some gq \<longrightarrow> nodeKey gq \<noteq> K"
  proof (cases ic)
    case True
    have "\<forall>v' cl' q' nl' pq gq. f = ((v', cl', q', nl'), True) \<longrightarrow> isClassMethod q'
           \<longrightarrow> map_option kind (node q') = Some ''constructor''
           \<longrightarrow> parentPath q' = Some pq \<longrightarrow> parentPath pq = Some gq \<longrightarrow> nodeKey gq \<noteq> K"
      using Cons.prems(4) by simp
    then show ?thesis using f True by blast
  next
    case False
    then show ?thesis by simp
  qed
  have c1: "constructorComment (heap s1 ! pc) = Some x"
    using addComment_class_record_kept [where env = env and d = d and v = v and cl = cl and nl = nl,
        OF Cons.prems(1,2,3) k] a by simp
  have o1: "\<And>k. commentsByNode s1 k = Some pc \<Longrightarrow> k = K"
    using addComment_owner [where env = env and d = d and v = v and cl = cl and q = q and nl = nl
        and ic = ic, OF Cons.prems(1,3)] a by simp
  have r: "\<forall>f \<in> set fs. \<forall>v cl q nl pq gq. f = ((v, cl, q, nl), True) \<longrightarrow> isClassMethod q
           \<longrightarrow> map_option kind (node q) = Some ''constructor''
           \<longrightarrow> parentPath q = Some pq \<longrightarrow> parentPath pq = Some gq \<longrightarrow> nodeKey gq \<noteq> K"
    using Cons.prems(4) by simp
  note ih = Cons.IH [OF p1 c1 o1 r]
  show ?case
  proof (cases res1)
    case (Inl e)
    then show ?thesis using f a c1 by simp
  next
    case (Inr r1)
    obtain res2 s2 where c: "callAll (addComment env) d fs s1 = (res2, s2)" by fastforce
    then show ?thesis using f a Inr ih by (cases res2) simp_all
  qed
qed

lemma kept_output: "y \<in> set (map the (filter (kept h) cs)) \<Longrightarrow> Some y \<in> set cs"
  by (auto simp: kept_def split: option.splits)

lemma constructor_merge_call:
  assumes "visitedKey d commentLoc \<notin> visited st"
    and "isClassMethod p" and "map_option kind (node p) = Some ''constructor''"
    and "parentPath p = Some pp" and "parentPath pp = Some gp"
    and "commentsByNode st (nodeKey gp) = Some parentComment"
    and "nodeKey (case findTarget env p of Some q \<Rightarrow> q | None \<Rightarrow> p) \<noteq> nodeKey gp"
    and "addComment env d commentValue commentLoc p nodeLoc True st = (res, st')"
    and "parentComment < length (heap st)"
  shows "res = Inr None
     \<and> heap st' = (heap st)[parentComment := (heap st ! parentComment)\<lparr>constructorComment := Some (length (heap st))\<rparr>]
                  @ [parse env commentValue commentLoc (buildContext d p nodeLoc True)]"
  using assms
  by (cases "hideconstructor (parse env commentValue commentLoc (buildContext d p nodeLoc True))")
     (auto simp: addComment_def constructorRule_def Let_def nth_append list_update_append)

text \<open>
  C2 (constructor merge, present parent), amended. Take a run of \<open>parseJavaScript\<close>
  that returns \<open>out\<close>, and in it a context-capturing callback call on the constructor
  of a class whose record \<open>parentComment\<close> is in the association map when the call is
  made (under the grandparent's node; the constructor is not stored under that node). The
  call returns absent; the record it creates, at reference \<open>length (heap st)\<close>, is not in
  \<open>out\<close>; right after the call the class's record has it as \<open>constructorComment\<close>. At
  the end of the run the class's record has as \<open>constructorComment\<close> the last
  constructor comment merged into it, which is not in \<open>out\<close> either; it is the record of
  this call when no later context-capturing call of the run is on a constructor under the
  same class node. (\<open>findings\<close> is the sequence of callback calls of the run.)
\<close>

theorem constructor_merge_in_run:
  assumes "parseJavaScript env w d cfg = (Inr out, w')"
    and "findings env cfg (parseToAst env (source d)) d
           = earlier @ ((commentValue, commentLoc, p, nodeLoc), True) # later"
    and "callAll (addComment env) d earlier
           \<lparr>heap = heap w, trace = trace w, visited = {}, commentsByNode = Map.empty\<rparr> = (res0, st)"
    and "visitedKey d commentLoc \<notin> visited st"
    and "isClassMethod p" and "map_option kind (node p) = Some ''constructor''"
    and "parentPath p = Some pp" and "parentPath pp = Some gp"
    and "commentsByNode st (nodeKey gp) = Some parentComment"
    and "nodeKey (case findTarget env p of Some q \<Rightarrow> q | None \<Rightarrow> p) \<noteq> nodeKey gp"
    and "addComment env d commentValue commentLoc p nodeLoc True st = (res, st')"
  shows "res = Inr None
     \<and> heap st' ! length (heap st) = parse env commentValue commentLoc (buildContext d p nodeLoc True)
     \<and> constructorComment (heap st' ! parentComment) = Some (length (heap st))
     \<and> length (heap st) \<notin> set out
     \<and> (\<exists>x. constructorComment (heap w' ! parentComment) = Some x \<and> length (heap st) \<le> x
            \<and> x \<notin> set out)
     \<and> ((\<forall>f \<in> set later. \<forall>v cl q nl pq gq. f = ((v, cl, q, nl), True) \<longrightarrow> isClassMethod q
            \<longrightarrow> map_option kind (node q) = Some ''constructor''
            \<longrightarrow> parentPath q = Some pq \<longrightarrow> parentPath pq = Some gq \<longrightarrow> nodeKey gq \<noteq> nodeKey gp)
         \<longrightarrow> constructorComment (heap w' ! parentComment) = Some (length (heap st)))"
proof -
  let ?init = "\<lparr>heap = heap w, trace = trace w, visited = {}, commentsByNode = Map.empty\<rparr> :: state"
  let ?r = "length (heap st)"
  let ?c = "parse env commentValue commentLoc (buildContext d p nodeLoc True)"
  have "wfMap ?init" by (simp add: wfMap_def)
  then have wf: "wfMap st" using callAll_wfMap [of ?init env d earlier] assms(3) by simp
  have pc: "parentComment < ?r" using wf assms(9) by (auto simp: wfMap_def)
  have own: "\<And>k. commentsByNode st k = Some parentComment \<Longrightarrow> k = nodeKey gp"
    using wf assms(9) by (auto simp: wfMap_def)
  note call = constructor_merge_call [OF assms(4-11) pc]
  have res: "res = Inr None" using call by simp
  have h': "heap st' = (heap st)[parentComment := (heap st ! parentComment)\<lparr>constructorComment := Some ?r\<rparr>] @ [?c]"
    using call by simp
  have len': "length (heap st') = Suc ?r" using h' by simp
  have rec: "heap st' ! ?r = ?c" using h' by (simp add: nth_append)
  have cc: "constructorComment (heap st' ! parentComment) = Some ?r"
    using h' pc by (simp add: nth_append)
  have pc': "parentComment < length (heap st')" using pc len' by simp
  have own': "\<And>k. commentsByNode st' k = Some parentComment \<Longrightarrow> k = nodeKey gp"
    using addComment_owner [where env = env and d = d and v = commentValue and cl = commentLoc
        and q = p and nl = nodeLoc and ic = True, OF pc own] assms(11) by simp
  obtain res2 st'' where later: "callAll (addComment env) d later st' = (res2, st'')" by fastforce
  have whole: "callAll (addComment env) d (findings env cfg (parseToAst env (source d)) d) ?init
      = (case res0 of Inl e \<Rightarrow> (Inl e, st)
         | Inr rs0 \<Rightarrow> (case res2 of Inl e \<Rightarrow> (Inl e, st'')
                        | Inr rs2 \<Rightarrow> (Inr (rs0 @ None # rs2), st'')))"
    unfolding assms(2) callAll_append using assms(3,11) res later
    by (simp split: sum.splits)
  from assms(1) whole obtain rs0 rs2 where r0: "res0 = Inr rs0" and r2: "res2 = Inr rs2"
    and out: "out = map the (filter (kept (heap st'')) (rs0 @ None # rs2))"
    and w': "w' = \<lparr>heap = heap st'', trace = trace st''\<rparr>"
    by (cases res0; cases res2) (auto simp: parseJavaScript_calls)
  have e0: "\<And>y. Some y \<in> set rs0 \<Longrightarrow> y < ?r"
    using callAll_fresh [OF assms(3)] r0 by auto
  have e2: "\<And>y. Some y \<in> set rs2 \<Longrightarrow> Suc ?r \<le> y"
    using callAll_fresh [OF later] r2 len' by auto
  have mem: "\<And>y. y \<in> set out \<Longrightarrow> Some y \<in> set rs0 \<or> Some y \<in> set rs2"
    using kept_output [of _ "heap st''" "rs0 @ None # rs2"] out by auto
  have notin: "?r \<notin> set out" using mem e0 e2 by fastforce
  from callAll_class_record [OF pc' cc _ later] len'
  obtain x where x: "constructorComment (heap st'' ! parentComment) = Some x"
    and xc: "x = ?r \<or> Suc ?r \<le> x" and xr: "Some x \<notin> set rs2"
    using r2 by auto
  have "x \<notin> set out" using mem e0 xc xr by fastforce
  then have last: "\<exists>x. constructorComment (heap w' ! parentComment) = Some x \<and> ?r \<le> x \<and> x \<notin> set out"
    using x xc w' by auto
  have kept: "(\<forall>f \<in> set later. \<forall>v cl q nl pq gq. f = ((v, cl, q, nl), True) \<longrightarrow> isClassMethod q
            \<longrightarrow> map_option kind (node q) = Some ''constructor''
            \<longrightarrow> parentPath q = Some pq \<longrightarrow> parentPath pq = Some gq \<longrightarrow> nodeKey gq \<noteq> nodeKey gp)
         \<longrightarrow> constructorComment (heap w' ! parentComment) = Some ?r"
  proof
    assume a: "\<forall>f \<in> set later. \<forall>v cl q nl pq gq. f = ((v, cl, q, nl), True) \<longrightarrow> isClassMethod q
            \<longrightarrow> map_option kind (node q) = Some ''constructor''
            \<longrightarrow> parentPath q = Some pq \<longrightarrow> parentPath pq = Some gq \<longrightarrow> nodeKey gq \<noteq> nodeKey gp"
    from callAll_class_record_kept [where env = env and d = d, OF pc' cc own' a]
    show "constructorComment (heap w' ! parentComment) = Some ?r"
      using later w' by simp
  qed
  from res rec cc notin last kept show ?thesis by blast
qed

theorem constructor_merge_in_run_witness:
  "fst (parseJavaScript (sampleEnv sampleComments []) freshProcess sampleData allComments) = Inr [1, 3]
   \<and> description (heap (snd (parseJavaScript (sampleEnv sampleComments []) freshProcess sampleData
                                 allComments)) ! 1) = ''A class''
   \<and> constructorComment (heap (snd (parseJavaScript (sampleEnv sampleComments []) freshProcess
                                        sampleData allComments)) ! 1) = Some 2
   \<and> description (heap (snd (parseJavaScript (sampleEnv sampleComments []) freshProcess sampleData
                                 allComments)) ! 2) = ''Creates A''"
proof -
  let ?E = "sampleEnv sampleComments [] :: unit env"
  let ?run = "parseJavaScript ?E freshProcess sampleData allComments"
  let ?earlier = "[((''@lends A'', locAt 1 0, programPath, locAt 2 0), True),
                   ((''A class'', locAt 8 0, classPath, locAt 9 0), True)]"
  let ?later = "[((''A class'', locAt 8 0, programPath, locAt 2 0), False),
                 ((''Done'', locAt 3 0, programPath, locAt 2 0), False)]"
  let ?init = "\<lparr>heap = heap freshProcess, trace = trace freshProcess, visited = {},
               commentsByNode = Map.empty\<rparr> :: state"
  let ?st = "beforeConstructor"
  have f: "fst ?run = Inr [1, 3]" by code_simp
  have h1: "?run = (Inr [1, 3], snd ?run)" using f by (metis prod.collapse)
  have h2: "findings ?E allComments (parseToAst ?E (source sampleData)) sampleData
      = ?earlier @ ((''Creates A'', locAt 10 2, ctorPath, locAt 11 2), True) # ?later"
    by (simp add: findings_def sampleEnv_def sampleComments_def allComments_def)
  have h3: "callAll (addComment ?E) sampleData ?earlier ?init
      = (fst (callAll (addComment ?E) sampleData ?earlier ?init), ?st)"
    unfolding beforeConstructor_def by (rule prod.collapse [symmetric])
  have h4: "visitedKey sampleData (locAt 10 2) \<notin> visited ?st" by code_simp
  have h5: "isClassMethod ctorPath" by code_simp
  have h6: "map_option kind (node ctorPath) = Some ''constructor''" by code_simp
  have h7: "parentPath ctorPath = Some bodyPath" by (simp add: ctorPath_def)
  have h8: "parentPath bodyPath = Some classPath" by (simp add: bodyPath_def)
  have h9: "commentsByNode ?st (nodeKey classPath) = Some 1" by code_simp
  have h10: "nodeKey (case findTarget ?E ctorPath of Some q \<Rightarrow> q | None \<Rightarrow> ctorPath) \<noteq> nodeKey classPath"
    by code_simp
  have l: "length (heap ?st) = 2" by code_simp
  have c: "\<forall>f \<in> set ?later. \<forall>v cl q nl pq gq. f = ((v, cl, q, nl), True) \<longrightarrow> isClassMethod q
            \<longrightarrow> map_option kind (node q) = Some ''constructor''
            \<longrightarrow> parentPath q = Some pq \<longrightarrow> parentPath pq = Some gq \<longrightarrow> nodeKey gq \<noteq> nodeKey classPath"
    by simp
  note t = constructor_merge_in_run [where nodeLoc = "locAt 11 2" and commentValue = "''Creates A''",
      OF h1 h2 h3 h4 h5 h6 h7 h8 h9 h10 prod.collapse [symmetric]]
  have m: "constructorComment (heap (snd ?run) ! 1) = Some 2"
    using t c l by simp
  have d1: "description (heap (snd ?run) ! 1) = ''A class''" by code_simp
  have d2: "description (heap (snd ?run) ! 2) = ''Creates A''" by code_simp
  from f m d1 d2 show ?thesis by simp
qed

text \<open>C2 as stated fails: with two doc blocks on the constructor of a documented class,
  the class's record ends the run with the second block as \<open>constructorComment\<close>; the
  first block is neither in the output nor in that field.\<close>

theorem constructor_comment_overwritten_counterexample:
  "commentsByNode
     (snd (callAll (addComment (sampleEnv twoBlocks [])) sampleData
             [((''A class'', locAt 1 0, classPath, locAt 2 0), True)] emptyState))
     (nodeKey classPath) = Some 0
   \<and> fst (parseJavaScript (sampleEnv twoBlocks []) freshProcess sampleData allComments) = Inr [0]
   \<and> description (heap (snd (parseJavaScript (sampleEnv twoBlocks []) freshProcess sampleData
                                 allComments)) ! 1) = ''Creates A''
   \<and> constructorComment (heap (snd (parseJavaScript (sampleEnv twoBlocks []) freshProcess
                                        sampleData allComments)) ! 0) = Some 2"
  by code_simp

end
